theory Spec2Isabelle
  imports Main "HOL-Library.Sublist" "HOL-Library.Monad_Syntax" "HOL-Library.AList"
begin

section \<open>Go strings and the library functions the handlers call\<close>

text \<open>
  A Go string is a sequence of bytes; \<^typ>\<open>string\<close> (a list of 8-bit characters) models it
  byte for byte. Text outside ASCII appears as its UTF-8 bytes. The regular expressions of
  the handlers only test ASCII bytes (\<open><\<close>, \<open>>\<close>, \<open>/\<close>, the newline, word characters), and
  an ASCII byte is never part of a multi-byte UTF-8 sequence, so matching byte by byte
  agrees with the rune-wise matching of Go's \<open>regexp\<close>.
\<close>

definition byte :: "char \<Rightarrow> nat" where
  "byte c = of_char c"

text \<open>\<open>strings.Contains(s, substr)\<close>.\<close>

fun Contains :: "string \<Rightarrow> string \<Rightarrow> bool" where
  "Contains [] substr = (substr = [])"
| "Contains (c # cs) substr = (prefix substr (c # cs) \<or> Contains cs substr)"

text \<open>
  The lazy repetition \<open>[\s\S]*?\<close> followed by a literal: try the literal first, otherwise
  consume one byte (any byte) and try again. The result is the shortest text before the
  literal, and what follows the literal.
\<close>

fun lazy_any_until :: "string \<Rightarrow> string \<Rightarrow> (string \<times> string) option" where
  "lazy_any_until lit [] = (if lit = [] then Some ([], []) else None)"
| "lazy_any_until lit (c # cs) =
     (if prefix lit (c # cs) then Some ([], drop (length lit) (c # cs))
      else map_option (\<lambda>(a, b). (c # a, b)) (lazy_any_until lit cs))"

text \<open>
  The lazy repetition \<open>.*?\<close> followed by a literal: as above, but \<open>.\<close> does not match a
  newline, so the attempt fails when a newline comes before the literal.
\<close>

fun lazy_dot_until :: "string \<Rightarrow> string \<Rightarrow> (string \<times> string) option" where
  "lazy_dot_until lit [] = (if lit = [] then Some ([], []) else None)"
| "lazy_dot_until lit (c # cs) =
     (if prefix lit (c # cs) then Some ([], drop (length lit) (c # cs))
      else if c = CHR 0x0A then None
      else map_option (\<lambda>(a, b). (c # a, b)) (lazy_dot_until lit cs))"

text \<open>
  Go's \<open>regexp\<close> returns the leftmost match: the pattern is tried at the first position,
  then at the second, and so on. \<open>leftmost try s\<close> returns the text skipped before the
  match together with what the attempt at that position returned.
\<close>

fun leftmost :: "(string \<Rightarrow> 'a option) \<Rightarrow> string \<Rightarrow> (string \<times> 'a) option" where
  "leftmost try [] = map_option (Pair []) (try [])"
| "leftmost try (c # cs) =
     (case try (c # cs) of
        Some r \<Rightarrow> Some ([], r)
      | None \<Rightarrow> map_option (\<lambda>(pre, r). (c # pre, r)) (leftmost try cs))"

text \<open>One attempt of \<open>open([\s\S]*?)close\<close> and of \<open>open(.*?)close\<close> at the head of a text.\<close>

definition any_block_at :: "string \<Rightarrow> string \<Rightarrow> string \<Rightarrow> (string \<times> string) option" where
  "any_block_at opn cls s =
     (if prefix opn s then lazy_any_until cls (drop (length opn) s) else None)"

definition dot_block_at :: "string \<Rightarrow> string \<Rightarrow> string \<Rightarrow> (string \<times> string) option" where
  "dot_block_at opn cls s =
     (if prefix opn s then lazy_dot_until cls (drop (length opn) s) else None)"

text \<open>
  \<open>FindStringSubmatch\<close> returns a slice: empty (nil) when there is no match, otherwise the
  whole match followed by the text of the capture group.
\<close>

definition submatch :: "string \<Rightarrow> string \<Rightarrow> (string \<times> string \<times> string) option \<Rightarrow> string list" where
  "submatch opn cls r =
     (case r of None \<Rightarrow> [] | Some (pre, body, post) \<Rightarrow> [opn @ body @ cls, body])"

text \<open>\<open>regexp.MustCompile(`<func_call>([\s\S]*?)</func_call>`).FindStringSubmatch\<close>\<close>

definition funcCallRegex_FindStringSubmatch :: "string \<Rightarrow> string list" where
  "funcCallRegex_FindStringSubmatch s =
     submatch ''<func_call>'' ''</func_call>''
       (leftmost (any_block_at ''<func_call>'' ''</func_call>'') s)"

text \<open>\<open>regexp.MustCompile(`<tool_name>(.*?)</tool_name>`).FindStringSubmatch\<close>\<close>

definition toolNameRegex_FindStringSubmatch :: "string \<Rightarrow> string list" where
  "toolNameRegex_FindStringSubmatch s =
     submatch ''<tool_name>'' ''</tool_name>''
       (leftmost (dot_block_at ''<tool_name>'' ''</tool_name>'') s)"

text \<open>\<open>regexp.MustCompile(`<arguments>([\s\S]*?)</arguments>`).FindStringSubmatch\<close>\<close>

definition argsRegex_FindStringSubmatch :: "string \<Rightarrow> string list" where
  "argsRegex_FindStringSubmatch s =
     submatch ''<arguments>'' ''</arguments>''
       (leftmost (any_block_at ''<arguments>'' ''</arguments>'') s)"

text \<open>
  The tag pattern \<open><(\w+)>([^<]*)</(\w+)>\<close>. \<open>\w\<close> is an ASCII letter, digit or underscore.
  At one position the match is unique: \<open>\w+\<close> must take the whole run of word characters
  (the next byte has to be \<open>>\<close>, which is not a word character), and \<open>[^<]*\<close> must run up
  to the next \<open><\<close> (the next byte has to be \<open><\<close>).
\<close>

definition is_word :: "char \<Rightarrow> bool" where
  "is_word c = ((48 \<le> byte c \<and> byte c \<le> 57) \<or> (65 \<le> byte c \<and> byte c \<le> 90)
                 \<or> byte c = 95 \<or> (97 \<le> byte c \<and> byte c \<le> 122))"

definition not_lt :: "char \<Rightarrow> bool" where
  "not_lt c = (c \<noteq> CHR ''<'')"

definition tag_at :: "string \<Rightarrow> ((string \<times> string \<times> string) \<times> string) option" where
  "tag_at s =
     (case s of
        [] \<Rightarrow> None
      | c # r1 \<Rightarrow>
          if c \<noteq> CHR ''<'' then None
          else let openTag = takeWhile is_word r1; r2 = dropWhile is_word r1 in
            if openTag = [] then None
            else if \<not> prefix ''>'' r2 then None
            else let r3 = drop 1 r2;
                     v = takeWhile not_lt r3; r4 = dropWhile not_lt r3 in
              if \<not> prefix ''</'' r4 then None
              else let r5 = drop 2 r4;
                       closeTag = takeWhile is_word r5; r6 = dropWhile is_word r5 in
                if closeTag = [] then None
                else if \<not> prefix ''>'' r6 then None
                else Some ((openTag, v, closeTag), drop 1 r6))"

lemma tag_at_shorter:
  assumes "tag_at s = Some (m, rest)"
  shows "length rest < length s"
proof -
  have dw: "\<And>P xs. length (dropWhile P xs) \<le> length xs"
    by (simp add: length_dropWhile_le)
  obtain c r1 where s: "s = c # r1"
    using assms by (cases s) (auto simp: tag_at_def)
  define r2 where "r2 = dropWhile is_word r1"
  define r4 where "r4 = dropWhile not_lt (drop 1 r2)"
  define r6 where "r6 = dropWhile is_word (drop 2 r4)"
  have "rest = drop 1 r6"
    using assms unfolding s tag_at_def r2_def r4_def r6_def
    by (auto simp: Let_def split: if_splits)
  moreover have "length r6 \<le> length r4"
    unfolding r6_def using dw[of is_word "drop 2 r4"] by simp
  moreover have "length r4 \<le> length r2"
    unfolding r4_def using dw[of not_lt "drop 1 r2"] by simp
  moreover have "length r2 \<le> length r1"
    unfolding r2_def by (rule dw)
  ultimately show ?thesis
    using s by simp
qed

text \<open>
  \<open>FindAllStringSubmatch(s, -1)\<close>: the successive non-overlapping leftmost matches. Each
  match is the slice of the whole match and the three capture groups.
\<close>

function tagRegex_FindAllStringSubmatch :: "string \<Rightarrow> string list list" where
  "tagRegex_FindAllStringSubmatch s =
     (case s of
        [] \<Rightarrow> []
      | c # cs \<Rightarrow>
          (case tag_at s of
             Some ((openTag, v, closeTag), rest) \<Rightarrow>
               [''<'' @ openTag @ ''>'' @ v @ ''</'' @ closeTag @ ''>'', openTag, v, closeTag]
                 # tagRegex_FindAllStringSubmatch rest
           | None \<Rightarrow> tagRegex_FindAllStringSubmatch cs))"
  by pat_completeness auto

termination
  by (relation "measure length") (auto dest: tag_at_shorter)

declare tagRegex_FindAllStringSubmatch.simps [simp del]

text \<open>
  \<open>strings.TrimSpace\<close> removes the leading and then the trailing white space as Unicode
  defines it (\<open>unicode.IsSpace\<close>): the six ASCII characters, U+0085, U+00A0, U+1680,
  U+2000 to U+200A, U+2028, U+2029, U+202F, U+205F and U+3000, here in UTF-8.
\<close>

definition space_runes :: "string list" where
  "space_runes =
     [[CHR 0x09], [CHR 0x0A], [CHR 0x0B], [CHR 0x0C], [CHR 0x0D], [CHR 0x20],
      [CHR 0xC2, CHR 0x85], [CHR 0xC2, CHR 0xA0], [CHR 0xE1, CHR 0x9A, CHR 0x80],
      [CHR 0xE2, CHR 0x80, CHR 0x80], [CHR 0xE2, CHR 0x80, CHR 0x81],
      [CHR 0xE2, CHR 0x80, CHR 0x82], [CHR 0xE2, CHR 0x80, CHR 0x83],
      [CHR 0xE2, CHR 0x80, CHR 0x84], [CHR 0xE2, CHR 0x80, CHR 0x85],
      [CHR 0xE2, CHR 0x80, CHR 0x86], [CHR 0xE2, CHR 0x80, CHR 0x87],
      [CHR 0xE2, CHR 0x80, CHR 0x88], [CHR 0xE2, CHR 0x80, CHR 0x89],
      [CHR 0xE2, CHR 0x80, CHR 0x8A], [CHR 0xE2, CHR 0x80, CHR 0xA8],
      [CHR 0xE2, CHR 0x80, CHR 0xA9], [CHR 0xE2, CHR 0x80, CHR 0xAF],
      [CHR 0xE2, CHR 0x81, CHR 0x9F], [CHR 0xE3, CHR 0x80, CHR 0x80]]"

text \<open>The number of bytes of the white-space rune at the head of a text; 0 when there is none.\<close>

definition space_width :: "string \<Rightarrow> nat" where
  "space_width s = (case find (\<lambda>r. prefix r s) space_runes of None \<Rightarrow> 0 | Some r \<Rightarrow> length r)"

definition space_width_last :: "string \<Rightarrow> nat" where
  "space_width_last s = (case find (\<lambda>r. suffix r s) space_runes of None \<Rightarrow> 0 | Some r \<Rightarrow> length r)"

function TrimLeftSpace :: "string \<Rightarrow> string" where
  "TrimLeftSpace s =
     (if s \<noteq> [] \<and> 0 < space_width s then TrimLeftSpace (drop (space_width s) s) else s)"
  by pat_completeness auto

termination
  by (relation "measure length") auto

function TrimRightSpace :: "string \<Rightarrow> string" where
  "TrimRightSpace s =
     (if s \<noteq> [] \<and> 0 < space_width_last s
      then TrimRightSpace (take (length s - space_width_last s) s) else s)"
  by pat_completeness auto

termination
  by (relation "measure length") auto

declare TrimLeftSpace.simps [simp del] TrimRightSpace.simps [simp del]

definition TrimSpace :: "string \<Rightarrow> string" where
  "TrimSpace s = TrimRightSpace (TrimLeftSpace s)"

text \<open>
  \<open>strconv.Atoi\<close> on a 64-bit platform: an optional sign, then one or more decimal digits
  and nothing else, and the value must fit a signed 64-bit integer. \<open>None\<close> models the
  returned error (syntax or range).
\<close>

definition is_digit :: "char \<Rightarrow> bool" where
  "is_digit c = (48 \<le> byte c \<and> byte c \<le> 57)"

fun digits_value :: "int \<Rightarrow> string \<Rightarrow> int" where
  "digits_value n [] = n"
| "digits_value n (c # cs) = digits_value (n * 10 + (of_char c - 48)) cs"

definition Atoi :: "string \<Rightarrow> int option" where
  "Atoi s =
     (let neg = prefix ''-'' s;
          ds = (if prefix ''-'' s \<or> prefix ''+'' s then drop 1 s else s)
      in if ds = [] \<or> \<not> list_all is_digit ds then None
         else let v = (if neg then - digits_value 0 ds else digits_value 0 ds)
              in if - (2 ^ 63) \<le> v \<and> v \<le> 2 ^ 63 - 1 then Some v else None)"

text \<open>\<open>strconv.Itoa\<close> and the verb \<open>%d\<close>: the decimal digits, with a minus sign when negative.\<close>

fun nat_digits :: "nat \<Rightarrow> string" where
  "nat_digits n =
     (if n < 10 then [char_of (48 + n)] else nat_digits (n div 10) @ [char_of (48 + n mod 10)])"

declare nat_digits.simps [simp del]

definition Itoa :: "int \<Rightarrow> string" where
  "Itoa i = (if i < 0 then ''-'' @ nat_digits (nat (- i)) else nat_digits (nat i))"

section \<open>The argument mapping and its JSON text\<close>

text \<open>
  The values the extractor stores in its \<open>map[string]interface{}\<close> are Go ints and strings.
  The map is an association list with one entry per key; \<^const>\<open>AList.update\<close> is the
  assignment \<open>args[key] = value\<close>, and \<^const>\<open>map_of\<close> the lookup.
\<close>

datatype jvalue = JInt int | JString string

type_synonym args_map = "(string \<times> jvalue) list"

text \<open>
  \<open>utf8.DecodeRuneInString\<close>: the width of the valid UTF-8 sequence at the head of a
  text, \<open>None\<close> where Go returns \<open>RuneError\<close> with width 1.
\<close>

definition is_cont :: "char \<Rightarrow> bool" where
  "is_cont c = (128 \<le> byte c \<and> byte c \<le> 191)"

definition rune_width :: "string \<Rightarrow> nat option" where
  "rune_width s =
     (case s of
        [] \<Rightarrow> None
      | b0 # r \<Rightarrow>
          if byte b0 < 128 then Some 1
          else if 194 \<le> byte b0 \<and> byte b0 \<le> 223 then
            (case r of b1 # _ \<Rightarrow> if is_cont b1 then Some 2 else None | _ \<Rightarrow> None)
          else if 224 \<le> byte b0 \<and> byte b0 \<le> 239 then
            (case r of
               b1 # b2 # _ \<Rightarrow>
                 if (if byte b0 = 224 then 160 else 128) \<le> byte b1
                    \<and> byte b1 \<le> (if byte b0 = 237 then 159 else 191) \<and> is_cont b2
                 then Some 3 else None
             | _ \<Rightarrow> None)
          else if 240 \<le> byte b0 \<and> byte b0 \<le> 244 then
            (case r of
               b1 # b2 # b3 # _ \<Rightarrow>
                 if (if byte b0 = 240 then 144 else 128) \<le> byte b1
                    \<and> byte b1 \<le> (if byte b0 = 244 then 143 else 191)
                    \<and> is_cont b2 \<and> is_cont b3
                 then Some 4 else None
             | _ \<Rightarrow> None)
          else None)"

lemma rune_width_pos: "rune_width s = Some n \<Longrightarrow> 0 < n \<and> n \<le> length s"
  by (auto simp: rune_width_def split: list.splits if_splits)

definition hex_digit :: "nat \<Rightarrow> char" where
  "hex_digit n = (if n < 10 then char_of (48 + n) else char_of (87 + n))"

text \<open>
  The body of a JSON string as \<open>encoding/json\<close> of Go 1.21 writes it with HTML escaping on
  (the default of \<open>json.Marshal\<close>): the quote and the backslash get a backslash, newline,
  carriage return and tab their short escapes, every other byte below 0x20 and
  \<open><\<close>, \<open>>\<close>, \<open>&\<close> a \<open>\u00XX\<close> escape, an invalid UTF-8 byte becomes the escape of U+FFFD, U+2028 and U+2029
  are escaped, and everything else is copied.
\<close>

function json_string_body :: "string \<Rightarrow> string" where
  "json_string_body s =
     (case s of
        [] \<Rightarrow> []
      | b # r \<Rightarrow>
          if byte b < 128 then
            (if b = CHR 0x5C \<or> b = CHR 0x22 then [CHR 0x5C, b]
             else if b = CHR 0x0A then [CHR 0x5C, CHR ''n'']
             else if b = CHR 0x0D then [CHR 0x5C, CHR ''r'']
             else if b = CHR 0x09 then [CHR 0x5C, CHR ''t'']
             else if byte b < 32 \<or> b = CHR ''<'' \<or> b = CHR ''>'' \<or> b = CHR ''&''
               then [CHR 0x5C] @ ''u00'' @ [hex_digit (byte b div 16), hex_digit (byte b mod 16)]
             else [b]) @ json_string_body r
          else (case rune_width s of
                  None \<Rightarrow> [CHR 0x5C] @ ''ufffd'' @ json_string_body r
                | Some n \<Rightarrow>
                    if take n s = [CHR 0xE2, CHR 0x80, CHR 0xA8] then
                      [CHR 0x5C] @ ''u2028'' @ json_string_body (drop n s)
                    else if take n s = [CHR 0xE2, CHR 0x80, CHR 0xA9] then
                      [CHR 0x5C] @ ''u2029'' @ json_string_body (drop n s)
                    else take n s @ json_string_body (drop n s)))"
  by pat_completeness auto

termination
  by (relation "measure length") (auto dest: rune_width_pos)

declare json_string_body.simps [simp del]

definition json_string :: "string \<Rightarrow> string" where
  "json_string s = [CHR 0x22] @ json_string_body s @ [CHR 0x22]"

fun json_value :: "jvalue \<Rightarrow> string" where
  "json_value (JInt i) = Itoa i"
| "json_value (JString s) = json_string s"

text \<open>Go compares strings byte by byte; \<open>encoding/json\<close> writes a map's keys in that order.\<close>

fun string_less :: "string \<Rightarrow> string \<Rightarrow> bool" where
  "string_less [] [] = False"
| "string_less [] (y # ys) = True"
| "string_less (x # xs) [] = False"
| "string_less (x # xs) (y # ys) = (byte x < byte y \<or> (x = y \<and> string_less xs ys))"

fun insert_entry :: "string \<times> jvalue \<Rightarrow> args_map \<Rightarrow> args_map" where
  "insert_entry e [] = [e]"
| "insert_entry e (x # xs) = (if string_less (fst x) (fst e) then x # insert_entry e xs else e # x # xs)"

definition sort_entries :: "args_map \<Rightarrow> args_map" where
  "sort_entries m = foldr insert_entry m []"

fun join_comma :: "string list \<Rightarrow> string" where
  "join_comma [] = []"
| "join_comma [x] = x"
| "join_comma (x # y # ys) = x @ '','' @ join_comma (y # ys)"

text \<open>
  \<open>json.Marshal\<close> of the argument mapping. It returns an error only for values JSON
  cannot represent; ints and strings are not among them, so the result is always \<open>Inr\<close>.
\<close>

definition json_object :: "args_map \<Rightarrow> string" where
  "json_object m =
     ''{'' @ join_comma (map (\<lambda>(k, v). json_string k @ '':'' @ json_value v) (sort_entries m)) @ ''}''"

definition json_Marshal :: "args_map \<Rightarrow> string + string" where
  "json_Marshal m = Inr (json_object m)"

section \<open>The tool-call extractor\<close>

record ToolCallInfo =
  ToolName :: string
  Arguments :: string

definition ToolCallInfo_zero :: ToolCallInfo where
  "ToolCallInfo_zero = \<lparr>ToolName = [], Arguments = []\<rparr>"

text \<open>
  Indexing a Go slice panics when the index is out of range. \<open>None\<close> is the panic, so that
  "the extractor never fails" is a statement about the model and not a property of totality.
\<close>

definition go_index :: "'a list \<Rightarrow> nat \<Rightarrow> 'a option" where
  "go_index xs i = (if i < length xs then Some (xs ! i) else None)"

text \<open>The loop over \<open>tagMatches\<close>, with the map built so far as its state.\<close>

fun collect_args :: "string list list \<Rightarrow> args_map \<Rightarrow> args_map option" where
  "collect_args [] args = Some args"
| "collect_args (match # ms) args =
     (if length match \<ge> 4 then
        do {
          openTag \<leftarrow> go_index match 1;
          v \<leftarrow> go_index match 2;
          closeTag \<leftarrow> go_index match 3;
          let value = TrimSpace v in
          if openTag \<noteq> closeTag then collect_args ms args
          else if openTag = ''customerPhone'' \<or> openTag = ''orderId'' then
            collect_args ms (AList.update openTag (JString value) args)
          else (case Atoi value of
                  Some intValue \<Rightarrow> collect_args ms (AList.update openTag (JInt intValue) args)
                | None \<Rightarrow> collect_args ms (AList.update openTag (JString value) args))
        }
      else collect_args ms args)"

text \<open>
  \<open>parseToolCallFromXML\<close>. The outer \<open>option\<close> is \<open>None\<close> for a run-time panic; the pair is
  what the Go function returns.
\<close>

definition parseToolCallFromXML :: "string \<Rightarrow> (ToolCallInfo \<times> bool) option" where
  "parseToolCallFromXML response =
     (if \<not> Contains response ''<func_call>'' then Some (ToolCallInfo_zero, False)
      else let matches = funcCallRegex_FindStringSubmatch response in
        if length matches < 2 then Some (ToolCallInfo_zero, False)
        else do {
          funcCallContent \<leftarrow> go_index matches 1;
          let toolNameMatches = toolNameRegex_FindStringSubmatch funcCallContent in
          if length toolNameMatches < 2 then Some (ToolCallInfo_zero, False)
          else do {
            name \<leftarrow> go_index toolNameMatches 1;
            let toolName = TrimSpace name;
                argsMatches = argsRegex_FindStringSubmatch funcCallContent in
            if length argsMatches < 2 then Some (ToolCallInfo_zero, False)
            else do {
              argsContent \<leftarrow> go_index argsMatches 1;
              args \<leftarrow> collect_args (tagRegex_FindAllStringSubmatch argsContent) [];
              (case json_Marshal args of
                 Inl err \<Rightarrow> Some (ToolCallInfo_zero, False)
               | Inr argsJSON \<Rightarrow> Some (\<lparr>ToolName = toolName, Arguments = argsJSON\<rparr>, True))
            }
          }
        })"

text \<open>
  \<open>ReplaceAllString(llmResponse, "")\<close> with the pattern \<open><func_call>[\s\S]*?</func_call>\<close>:
  every successive match is deleted and the text between the matches is kept.
\<close>

lemma lazy_any_until_Some:
  "lazy_any_until lit s = Some (a, b) \<Longrightarrow> s = a @ lit @ b"
proof (induction s arbitrary: a)
  case Nil
  then show ?case by (simp split: if_splits)
next
  case (Cons c cs)
  show ?case
  proof (cases "prefix lit (c # cs)")
    case True
    then obtain zs where zs: "c # cs = lit @ zs" by (auto simp: prefix_def)
    from Cons.prems True have ab: "a = []" "b = drop (length lit) (c # cs)" by simp_all
    have "drop (length lit) (c # cs) = zs" unfolding zs by simp
    with ab zs show ?thesis by simp
  next
    case False
    with Cons.prems obtain a' where "lazy_any_until lit cs = Some (a', b)" "a = c # a'"
      by auto
    with Cons.IH show ?thesis by simp
  qed
qed

lemma leftmost_Some:
  "leftmost try s = Some (pre, r) \<Longrightarrow> \<exists>rest. s = pre @ rest \<and> try rest = Some r"
proof (induction s arbitrary: pre)
  case Nil
  then show ?case by auto
next
  case (Cons c cs)
  show ?case
  proof (cases "try (c # cs)")
    case (Some r')
    with Cons.prems show ?thesis by auto
  next
    case None
    with Cons.prems obtain pre' where "leftmost try cs = Some (pre', r)" "pre = c # pre'"
      by auto
    with Cons.IH show ?thesis by auto
  qed
qed

lemma any_block_at_Some:
  "any_block_at opn cls s = Some (body, post) \<Longrightarrow> s = opn @ body @ cls @ post"
proof -
  assume a: "any_block_at opn cls s = Some (body, post)"
  then have p: "prefix opn s" and l: "lazy_any_until cls (drop (length opn) s) = Some (body, post)"
    by (auto simp: any_block_at_def split: if_splits)
  from p obtain zs where zs: "s = opn @ zs" by (auto simp: prefix_def)
  with l have "zs = body @ cls @ post" by (simp add: lazy_any_until_Some)
  with zs show ?thesis by simp
qed

lemma leftmost_any_block_Some:
  "leftmost (any_block_at opn cls) s = Some (pre, body, post) \<Longrightarrow>
     s = pre @ opn @ body @ cls @ post"
  by (auto dest!: leftmost_Some any_block_at_Some)

function funcCallRegex_ReplaceAll_empty :: "string \<Rightarrow> string" where
  "funcCallRegex_ReplaceAll_empty s =
     (case leftmost (any_block_at ''<func_call>'' ''</func_call>'') s of
        None \<Rightarrow> s
      | Some (pre, body, post) \<Rightarrow> pre @ funcCallRegex_ReplaceAll_empty post)"
  by pat_completeness auto

termination
  by (relation "measure length") (auto dest!: leftmost_any_block_Some)

declare funcCallRegex_ReplaceAll_empty.simps [simp del]

text \<open>\<open>buildFinalReply\<close>: the reply with the directive removed and the tool result added.\<close>

definition buildFinalReply :: "string \<Rightarrow> string \<Rightarrow> string" where
  "buildFinalReply llmResponse toolResult =
     (let cleanResponse = TrimSpace (funcCallRegex_ReplaceAll_empty llmResponse) in
      if cleanResponse = [] then toolResult
      else cleanResponse @ [CHR 0x0A, CHR 0x0A] @ toolResult)"

section \<open>Messages, requests and the retrieved context\<close>

text \<open>
  A Go \<open>error\<close> is represented by its message (\<open>err.Error()\<close>): the verbs \<open>%v\<close> and \<open>%w\<close>
  print exactly that text. The messages of the source are Chinese; they appear here as
  their UTF-8 bytes.
\<close>

type_synonym go_error = string

record Message =
  Role :: string
  Content :: string

record HistoryMessage =
  hist_Role :: string
  hist_Content :: string

record ChatRequest =
  req_Message :: string
  UserID :: string
  SessionID :: string
  History :: "HistoryMessage list"

record ChatResponse =
  Reply :: string
  resp_SessionID :: string

text \<open>
  A retrieved document. Of its metadata the handlers read the key \<open>category\<close> and test
  whether the value is a string; \<open>MetaOther\<close> stands for a value of any other dynamic type.
  The distance (a float) is not read by the handlers and is left out.
\<close>

datatype meta_value = MetaString string | MetaOther

record Document =
  doc_ID :: string
  doc_Text :: string
  Metadata :: "(string \<times> meta_value) list"

text \<open>The first line of the context message, and the label of the category line.\<close>

definition context_header :: string where
  "context_header =
     [CHR 0xE4, CHR 0xBB, CHR 0xA5, CHR 0xE4, CHR 0xB8, CHR 0x8B, CHR 0xE6, CHR 0x98, CHR 0xAF] @
     [CHR 0xE7, CHR 0x9B, CHR 0xB8, CHR 0xE5, CHR 0x85, CHR 0xB3, CHR 0xE7, CHR 0x9A, CHR 0x84] @
     [CHR 0xE7, CHR 0x9F, CHR 0xA5, CHR 0xE8, CHR 0xAF, CHR 0x86, CHR 0xE5, CHR 0xBA, CHR 0x93] @
     [CHR 0xE4, CHR 0xBF, CHR 0xA1, CHR 0xE6, CHR 0x81, CHR 0xAF] @ '':'' @
     [CHR 0x0A, CHR 0x0A]"

definition category_label :: string where
  "category_label =
     ''   '' @ [CHR 0xE5, CHR 0x88, CHR 0x86, CHR 0xE7, CHR 0xB1, CHR 0xBB] @ '': ''"

text \<open>\<open>rag.FormatContext\<close>: the loop over the documents, \<open>context\<close> being its accumulator.\<close>

fun FormatContext_loop :: "nat \<Rightarrow> Document list \<Rightarrow> string \<Rightarrow> string" where
  "FormatContext_loop i [] context = context"
| "FormatContext_loop i (doc # docs) context =
     FormatContext_loop (i + 1) docs
       (let context1 = context @ Itoa (int i + 1) @ ''. '' @ doc_Text doc @ [CHR 0x0A] in
        case map_of (Metadata doc) ''category'' of
          Some (MetaString category) \<Rightarrow> context1 @ category_label @ category @ [CHR 0x0A]
        | _ \<Rightarrow> context1)"

definition FormatContext :: "Document list \<Rightarrow> string" where
  "FormatContext documents =
     (if length documents = 0 then [] else FormatContext_loop 0 documents context_header)"

text \<open>The system message that \<open>HandleChat\<close> puts first, byte for byte.\<close>

definition system_preamble :: string where
  "system_preamble =
     [CHR 0xE4, CHR 0xBD, CHR 0xA0, CHR 0xE6, CHR 0x98, CHR 0xAF, CHR 0xE4, CHR 0xB8, CHR 0x80] @
     [CHR 0xE4, CHR 0xB8, CHR 0xAA, CHR 0xE6, CHR 0x99, CHR 0xBA, CHR 0xE8, CHR 0x83, CHR 0xBD] @
     [CHR 0xE5, CHR 0xAE, CHR 0xA2, CHR 0xE6, CHR 0x9C, CHR 0x8D, CHR 0xE5, CHR 0x8A, CHR 0xA9] @
     [CHR 0xE6, CHR 0x89, CHR 0x8B] @ '','' @
     [CHR 0xE8, CHR 0xB4, CHR 0x9F, CHR 0xE8, CHR 0xB4, CHR 0xA3, CHR 0xE5, CHR 0xB8, CHR 0xAE] @
     [CHR 0xE5, CHR 0x8A, CHR 0xA9, CHR 0xE7, CHR 0x94, CHR 0xA8, CHR 0xE6, CHR 0x88, CHR 0xB7] @
     [CHR 0xE5, CHR 0xAE, CHR 0x8C, CHR 0xE6, CHR 0x88, CHR 0x90, CHR 0xE8, CHR 0xAE, CHR 0xA2] @
     [CHR 0xE5, CHR 0x8D, CHR 0x95, CHR 0xE6, CHR 0x93, CHR 0x8D, CHR 0xE4, CHR 0xBD, CHR 0x9C] @
     [CHR 0xE5, CHR 0x92, CHR 0x8C, CHR 0xE8, CHR 0xA7, CHR 0xA3, CHR 0xE7, CHR 0xAD, CHR 0x94] @
     [CHR 0xE9, CHR 0x97, CHR 0xAE, CHR 0xE9, CHR 0xA2, CHR 0x98, CHR 0xE3, CHR 0x80, CHR 0x82] @
     [CHR 0x0A, CHR 0x0A, CHR 0xE4, CHR 0xBD, CHR 0xA0, CHR 0xE7, CHR 0x9A, CHR 0x84, CHR 0xE8] @
     [CHR 0x83, CHR 0xBD, CHR 0xE5, CHR 0x8A, CHR 0x9B] @ '':'' @ [CHR 0x0A] @ ''1. '' @
     [CHR 0xE6, CHR 0x90, CHR 0x9C, CHR 0xE7, CHR 0xB4, CHR 0xA2, CHR 0xE5, CHR 0x95, CHR 0x86] @
     [CHR 0xE5, CHR 0x93, CHR 0x81] @ '' (search_product) - '' @
     [CHR 0xE5, CHR 0xBD, CHR 0x93, CHR 0xE7, CHR 0x94, CHR 0xA8, CHR 0xE6, CHR 0x88, CHR 0xB7] @
     [CHR 0xE8, CHR 0xAF, CHR 0xA2, CHR 0xE9, CHR 0x97, CHR 0xAE, CHR 0xE5, CHR 0x95, CHR 0x86] @
     [CHR 0xE5, CHR 0x93, CHR 0x81, CHR 0xE4, CHR 0xBF, CHR 0xA1, CHR 0xE6, CHR 0x81, CHR 0xAF] @
     [CHR 0xE3, CHR 0x80, CHR 0x81, CHR 0xE4, CHR 0xBB, CHR 0xB7, CHR 0xE6, CHR 0xA0, CHR 0xBC] @
     [CHR 0xE3, CHR 0x80, CHR 0x81, CHR 0xE5, CHR 0xBA, CHR 0x93, CHR 0xE5, CHR 0xAD, CHR 0x98] @
     [CHR 0xE6, CHR 0x97, CHR 0xB6, CHR 0x0A] @ ''2. '' @
     [CHR 0xE5, CHR 0x88, CHR 0x9B, CHR 0xE5, CHR 0xBB, CHR 0xBA, CHR 0xE8, CHR 0xAE, CHR 0xA2] @
     [CHR 0xE5, CHR 0x8D, CHR 0x95] @ '' (create_order) - '' @
     [CHR 0xE5, CHR 0xBD, CHR 0x93, CHR 0xE7, CHR 0x94, CHR 0xA8, CHR 0xE6, CHR 0x88, CHR 0xB7] @
     [CHR 0xE6, CHR 0x8F, CHR 0x90, CHR 0xE4, CHR 0xBE, CHR 0x9B, CHR 0xE5, CHR 0x95, CHR 0x86] @
     [CHR 0xE5, CHR 0x93, CHR 0x81, CHR 0xE5, CHR 0x90, CHR 0x8D, CHR 0xE7, CHR 0xA7, CHR 0xB0] @
     [CHR 0xE3, CHR 0x80, CHR 0x81, CHR 0xE6, CHR 0x95, CHR 0xB0, CHR 0xE9, CHR 0x87, CHR 0x8F] @
     [CHR 0xE3, CHR 0x80, CHR 0x81, CHR 0xE5, CHR 0xA7, CHR 0x93, CHR 0xE5, CHR 0x90, CHR 0x8D] @
     [CHR 0xE3, CHR 0x80, CHR 0x81, CHR 0xE7, CHR 0x94, CHR 0xB5, CHR 0xE8, CHR 0xAF, CHR 0x9D] @
     [CHR 0xE3, CHR 0x80, CHR 0x81, CHR 0xE5, CHR 0x9C, CHR 0xB0, CHR 0xE5, CHR 0x9D, CHR 0x80] @
     [CHR 0xE6, CHR 0x97, CHR 0xB6, CHR 0x0A] @ ''3. '' @
     [CHR 0xE6, CHR 0x9F, CHR 0xA5, CHR 0xE8, CHR 0xAF, CHR 0xA2, CHR 0xE8, CHR 0xAE, CHR 0xA2] @
     [CHR 0xE5, CHR 0x8D, CHR 0x95] @ '' (query_order) - '' @
     [CHR 0xE5, CHR 0xBD, CHR 0x93, CHR 0xE7, CHR 0x94, CHR 0xA8, CHR 0xE6, CHR 0x88, CHR 0xB7] @
     [CHR 0xE8, CHR 0xAF, CHR 0xA2, CHR 0xE9, CHR 0x97, CHR 0xAE, CHR 0xE8, CHR 0xAE, CHR 0xA2] @
     [CHR 0xE5, CHR 0x8D, CHR 0x95, CHR 0xE7, CHR 0x8A, CHR 0xB6, CHR 0xE6, CHR 0x80, CHR 0x81] @
     [CHR 0xE6, CHR 0x97, CHR 0xB6, CHR 0x0A] @ ''4. '' @
     [CHR 0xE5, CHR 0x8F, CHR 0x96, CHR 0xE6, CHR 0xB6, CHR 0x88, CHR 0xE8, CHR 0xAE, CHR 0xA2] @
     [CHR 0xE5, CHR 0x8D, CHR 0x95] @ '' (cancel_order) - '' @
     [CHR 0xE5, CHR 0xBD, CHR 0x93, CHR 0xE7, CHR 0x94, CHR 0xA8, CHR 0xE6, CHR 0x88, CHR 0xB7] @
     [CHR 0xE8, CHR 0xA6, CHR 0x81, CHR 0xE6, CHR 0xB1, CHR 0x82, CHR 0xE5, CHR 0x8F, CHR 0x96] @
     [CHR 0xE6, CHR 0xB6, CHR 0x88, CHR 0xE8, CHR 0xAE, CHR 0xA2, CHR 0xE5, CHR 0x8D, CHR 0x95] @
     [CHR 0xE6, CHR 0x97, CHR 0xB6, CHR 0x0A] @ ''5. '' @
     [CHR 0xE5, CHR 0x9B, CHR 0x9E, CHR 0xE7, CHR 0xAD, CHR 0x94, CHR 0xE5, CHR 0x94, CHR 0xAE] @
     [CHR 0xE5, CHR 0x90, CHR 0x8E, CHR 0xE9, CHR 0x97, CHR 0xAE, CHR 0xE9, CHR 0xA2, CHR 0x98] @
     [CHR 0x0A, CHR 0x0A, CHR 0xE2, CHR 0x9A, CHR 0xA0, CHR 0xEF, CHR 0xB8, CHR 0x8F] @
     '' '' @
     [CHR 0xE5, CHR 0xB7, CHR 0xA5, CHR 0xE5, CHR 0x85, CHR 0xB7, CHR 0xE8, CHR 0xB0, CHR 0x83] @
     [CHR 0xE7, CHR 0x94, CHR 0xA8, CHR 0xE6, CHR 0xA0, CHR 0xBC, CHR 0xE5, CHR 0xBC, CHR 0x8F] @
     [CHR 0xE8, CHR 0xA7, CHR 0x84, CHR 0xE8, CHR 0x8C, CHR 0x83] @ '':'' @
     [CHR 0x0A, CHR 0xE5, CHR 0xBD, CHR 0x93, CHR 0xE9, CHR 0x9C, CHR 0x80, CHR 0xE8, CHR 0xA6] @
     [CHR 0x81, CHR 0xE8, CHR 0xB0, CHR 0x83, CHR 0xE7, CHR 0x94, CHR 0xA8, CHR 0xE5, CHR 0xB7] @
     [CHR 0xA5, CHR 0xE5, CHR 0x85, CHR 0xB7, CHR 0xE6, CHR 0x97, CHR 0xB6] @ '','' @
     [CHR 0xE5, CHR 0xBF, CHR 0x85, CHR 0xE9, CHR 0xA1, CHR 0xBB, CHR 0xE4, CHR 0xBD, CHR 0xBF] @
     [CHR 0xE7, CHR 0x94, CHR 0xA8, CHR 0xE4, CHR 0xBB, CHR 0xA5, CHR 0xE4, CHR 0xB8, CHR 0x8B] @
     '' XML '' @
     [CHR 0xE6, CHR 0xA0, CHR 0xBC, CHR 0xE5, CHR 0xBC, CHR 0x8F, CHR 0xE8, CHR 0xBE, CHR 0x93] @
     [CHR 0xE5, CHR 0x87, CHR 0xBA] @ '','' @
     [CHR 0xE5, CHR 0x8F, CHR 0x82, CHR 0xE6, CHR 0x95, CHR 0xB0, CHR 0xE5, CHR 0x90, CHR 0x8D] @
     [CHR 0xE7, CHR 0xA7, CHR 0xB0, CHR 0xE5, CHR 0xBF, CHR 0x85, CHR 0xE9, CHR 0xA1, CHR 0xBB] @
     [CHR 0xE7, CHR 0xB2, CHR 0xBE, CHR 0xE7, CHR 0xA1, CHR 0xAE, CHR 0xE5, CHR 0x8C, CHR 0xB9] @
     [CHR 0xE9, CHR 0x85, CHR 0x8D] @ '':'' @
     [CHR 0x0A, CHR 0x0A, CHR 0xE6, CHR 0x90, CHR 0x9C, CHR 0xE7, CHR 0xB4, CHR 0xA2, CHR 0xE5] @
     [CHR 0x95, CHR 0x86, CHR 0xE5, CHR 0x93, CHR 0x81, CHR 0xE7, CHR 0xA4, CHR 0xBA, CHR 0xE4] @
     [CHR 0xBE, CHR 0x8B] @ '':'' @ [CHR 0x0A] @ ''<func_call>'' @ [CHR 0x0A] @
     ''<tool_name>search_product</tool_name>'' @ [CHR 0x0A] @ ''<arguments>'' @ [CHR 0x0A] @
     ''<keyword>'' @
     [CHR 0xE5, CHR 0xB1, CHR 0xB1, CHR 0xE5, CHR 0x9C, CHR 0xB0, CHR 0xE8, CHR 0x87, CHR 0xAA] @
     [CHR 0xE8, CHR 0xA1, CHR 0x8C, CHR 0xE8, CHR 0xBD, CHR 0xA6] @ ''</keyword>'' @
     [CHR 0x0A] @ ''</arguments>'' @ [CHR 0x0A] @ ''</func_call>'' @
     [CHR 0x0A, CHR 0x0A, CHR 0xE5, CHR 0x88, CHR 0x9B, CHR 0xE5, CHR 0xBB, CHR 0xBA, CHR 0xE8] @
     [CHR 0xAE, CHR 0xA2, CHR 0xE5, CHR 0x8D, CHR 0x95, CHR 0xE7, CHR 0xA4, CHR 0xBA, CHR 0xE4] @
     [CHR 0xBE, CHR 0x8B] @ '':'' @ [CHR 0x0A] @ ''<func_call>'' @ [CHR 0x0A] @
     ''<tool_name>create_order</tool_name>'' @ [CHR 0x0A] @ ''<arguments>'' @ [CHR 0x0A] @
     ''<productName>'' @
     [CHR 0xE5, CHR 0xB1, CHR 0xB1, CHR 0xE5, CHR 0x9C, CHR 0xB0, CHR 0xE8, CHR 0x87, CHR 0xAA] @
     [CHR 0xE8, CHR 0xA1, CHR 0x8C, CHR 0xE8, CHR 0xBD, CHR 0xA6] @ ''</productName>'' @
     [CHR 0x0A] @ ''<quantity>2</quantity>'' @ [CHR 0x0A] @ ''<customerName>'' @
     [CHR 0xE5, CHR 0xBC, CHR 0xA0, CHR 0xE4, CHR 0xB8, CHR 0x89] @ ''</customerName>'' @
     [CHR 0x0A] @ ''<customerPhone>13800138000</customerPhone>'' @ [CHR 0x0A] @
     ''<shippingAddress>'' @
     [CHR 0xE5, CHR 0x8C, CHR 0x97, CHR 0xE4, CHR 0xBA, CHR 0xAC, CHR 0xE5, CHR 0xB8, CHR 0x82] @
     [CHR 0xE6, CHR 0x9C, CHR 0x9D, CHR 0xE9, CHR 0x98, CHR 0xB3, CHR 0xE5, CHR 0x8C, CHR 0xBA] @
     [CHR 0xE5, CHR 0xBB, CHR 0xBA, CHR 0xE5, CHR 0x9B, CHR 0xBD, CHR 0xE8, CHR 0xB7, CHR 0xAF] @
     ''1'' @ [CHR 0xE5, CHR 0x8F, CHR 0xB7] @ ''</shippingAddress>'' @ [CHR 0x0A] @
     ''</arguments>'' @ [CHR 0x0A] @ ''</func_call>'' @
     [CHR 0x0A, CHR 0x0A, CHR 0xE6, CHR 0x9F, CHR 0xA5, CHR 0xE8, CHR 0xAF, CHR 0xA2, CHR 0xE8] @
     [CHR 0xAE, CHR 0xA2, CHR 0xE5, CHR 0x8D, CHR 0x95, CHR 0xE7, CHR 0xA4, CHR 0xBA, CHR 0xE4] @
     [CHR 0xBE, CHR 0x8B] @ '':'' @ [CHR 0x0A] @ ''<func_call>'' @ [CHR 0x0A] @
     ''<tool_name>query_order</tool_name>'' @ [CHR 0x0A] @ ''<arguments>'' @ [CHR 0x0A] @
     ''<orderNumber>ORD-1234567890</orderNumber>'' @ [CHR 0x0A] @ ''</arguments>'' @
     [CHR 0x0A] @ ''</func_call>'' @
     [CHR 0x0A, CHR 0x0A, CHR 0xE5, CHR 0x8F, CHR 0x96, CHR 0xE6, CHR 0xB6, CHR 0x88, CHR 0xE8] @
     [CHR 0xAE, CHR 0xA2, CHR 0xE5, CHR 0x8D, CHR 0x95, CHR 0xE7, CHR 0xA4, CHR 0xBA, CHR 0xE4] @
     [CHR 0xBE, CHR 0x8B] @ '':'' @ [CHR 0x0A] @ ''<func_call>'' @ [CHR 0x0A] @
     ''<tool_name>cancel_order</tool_name>'' @ [CHR 0x0A] @ ''<arguments>'' @ [CHR 0x0A] @
     ''<orderNumber>ORD-1234567890</orderNumber>'' @ [CHR 0x0A] @ ''</arguments>'' @
     [CHR 0x0A] @ ''</func_call>'' @
     [CHR 0x0A, CHR 0x0A, CHR 0xE9, CHR 0x87, CHR 0x8D, CHR 0xE8, CHR 0xA6, CHR 0x81] @
     '':'' @ [CHR 0x0A] @ ''- '' @
     [CHR 0xE5, CHR 0xBF, CHR 0x85, CHR 0xE9, CHR 0xA1, CHR 0xBB, CHR 0xE4, CHR 0xB8, CHR 0xA5] @
     [CHR 0xE6, CHR 0xA0, CHR 0xBC, CHR 0xE6, CHR 0x8C, CHR 0x89, CHR 0xE7, CHR 0x85, CHR 0xA7] @
     [CHR 0xE4, CHR 0xB8, CHR 0x8A, CHR 0xE8, CHR 0xBF, CHR 0xB0] @ '' XML '' @
     [CHR 0xE6, CHR 0xA0, CHR 0xBC, CHR 0xE5, CHR 0xBC, CHR 0x8F, CHR 0xE8, CHR 0xBE, CHR 0x93] @
     [CHR 0xE5, CHR 0x87, CHR 0xBA, CHR 0x0A] @ ''- '' @ [CHR 0xE5, CHR 0x9C, CHR 0xA8] @
     '' <func_call> '' @
     [CHR 0xE6, CHR 0xA0, CHR 0x87, CHR 0xE7, CHR 0xAD, CHR 0xBE, CHR 0xE5, CHR 0x89, CHR 0x8D] @
     [CHR 0xE5, CHR 0x90, CHR 0x8E, CHR 0xE5, CHR 0x8F, CHR 0xAF, CHR 0xE4, CHR 0xBB, CHR 0xA5] @
     [CHR 0xE6, CHR 0xB7, CHR 0xBB, CHR 0xE5, CHR 0x8A, CHR 0xA0, CHR 0xE8, CHR 0xAF, CHR 0xB4] @
     [CHR 0xE6, CHR 0x98, CHR 0x8E, CHR 0xE6, CHR 0x96, CHR 0x87, CHR 0xE5, CHR 0xAD, CHR 0x97] @
     [CHR 0x0A] @ ''- '' @
     [CHR 0xE5, CHR 0xA6, CHR 0x82, CHR 0xE6, CHR 0x9E, CHR 0x9C, CHR 0xE4, CHR 0xBF, CHR 0xA1] @
     [CHR 0xE6, CHR 0x81, CHR 0xAF, CHR 0xE4, CHR 0xB8, CHR 0x8D, CHR 0xE5, CHR 0xAE, CHR 0x8C] @
     [CHR 0xE6, CHR 0x95, CHR 0xB4] @ '','' @
     [CHR 0xE5, CHR 0x85, CHR 0x88, CHR 0xE8, CHR 0xAF, CHR 0xA2, CHR 0xE9, CHR 0x97, CHR 0xAE] @
     [CHR 0xE7, CHR 0x94, CHR 0xA8, CHR 0xE6, CHR 0x88, CHR 0xB7] @ '','' @
     [CHR 0xE4, CHR 0xB8, CHR 0x8D, CHR 0xE8, CHR 0xA6, CHR 0x81, CHR 0xE8, CHR 0xB0, CHR 0x83] @
     [CHR 0xE7, CHR 0x94, CHR 0xA8, CHR 0xE5, CHR 0xB7, CHR 0xA5, CHR 0xE5, CHR 0x85, CHR 0xB7]"

text \<open>The loop of \<open>HandleChat\<close> over \<open>req.History\<close>, \<open>messages\<close> being its accumulator.\<close>

fun append_history :: "string \<Rightarrow> HistoryMessage list \<Rightarrow> Message list \<Rightarrow> Message list" where
  "append_history msg [] messages = messages"
| "append_history msg (histMsg # rest) messages =
     (if hist_Content histMsg = msg \<and> hist_Role histMsg = ''user''
      then append_history msg rest messages
      else append_history msg rest
             (messages @ [\<lparr>Role = hist_Role histMsg, Content = hist_Content histMsg\<rparr>]))"

text \<open>Step 2 of \<open>HandleChat\<close>: the message list sent to the model.\<close>

definition assemble_messages :: "ChatRequest \<Rightarrow> Document list \<Rightarrow> Message list" where
  "assemble_messages req knowledgeDocs =
     (let messages = [\<lparr>Role = ''system'', Content = system_preamble\<rparr>];
          messages = (if length knowledgeDocs > 0
                      then messages @ [\<lparr>Role = ''system'', Content = FormatContext knowledgeDocs\<rparr>]
                      else messages);
          messages = (if length (History req) > 0
                      then append_history (req_Message req) (History req) messages
                      else messages)
      in messages @ [\<lparr>Role = ''user'', Content = req_Message req\<rparr>])"

section \<open>The completion client's response\<close>

record ToolCall =
  call_ID :: string
  call_Type :: string
  fn_Name :: string
  fn_Arguments :: string

record Choice =
  FinishReason :: string
  msg_Content :: string
  ToolCalls :: "ToolCall list"

record llm_ChatResponse =
  Output_Text :: string
  Output_FinishReason :: string
  Output_Choices :: "Choice list"

text \<open>A tool definition offered to the model; its parameter schema is kept as text.\<close>

record Tool =
  tool_Type :: string
  tool_Name :: string
  tool_Description :: string
  tool_Parameters :: string

definition GetTextResponse :: "llm_ChatResponse \<Rightarrow> string" where
  "GetTextResponse chatResp =
     (if Output_Text chatResp \<noteq> [] then Output_Text chatResp
      else if length (Output_Choices chatResp) = 0 then []
      else msg_Content (Output_Choices chatResp ! 0))"

definition GetToolCalls :: "llm_ChatResponse \<Rightarrow> ToolCall list" where
  "GetToolCalls chatResp =
     (if Output_Text chatResp \<noteq> [] then []
      else if length (Output_Choices chatResp) = 0 then []
      else ToolCalls (Output_Choices chatResp ! 0))"

definition ShouldCallTool :: "llm_ChatResponse \<Rightarrow> bool" where
  "ShouldCallTool chatResp =
     (if Output_Text chatResp \<noteq> [] then False
      else if length (Output_Choices chatResp) = 0 then False
      else Contains (FinishReason (Output_Choices chatResp ! 0)) ''tool_calls'')"

section \<open>The tool gateway\<close>

datatype params = NoParams | InitializeParams | ToolCallParams string args_map

record MCPRequest =
  Jsonrpc :: string
  req_ID :: int
  Method :: string
  Params :: params

record MCPError =
  err_Code :: int
  err_Message :: string

record MCPResponse =
  resp_Jsonrpc :: string
  resp_ID :: int
  Result :: string
  Error :: "MCPError option"

record ContentBlock =
  block_Type :: string
  block_Text :: string

record MCPToolResult =
  result_Content :: "ContentBlock list"

text \<open>
  The client: its counter, its mutex (\<open>True\<close> when held) and, in place of the pipe to the
  sidecar, the lines written to it so far.
\<close>

record MCPClient =
  msgID :: int
  mu :: bool
  written :: "string list"

text \<open>
  What the handlers call but this repository does not define is a parameter: the retrieval
  and completion services, the sidecar's side of the pipe (what a write returns and what
  the next line read is, given the lines written so far), and \<open>encoding/json\<close> on the
  envelope types.
\<close>

record env =
  SearchKnowledge :: "string \<Rightarrow> int \<Rightarrow> go_error + Document list"
  Chat :: "Message list \<Rightarrow> Tool list \<Rightarrow> go_error + llm_ChatResponse"
  json_Unmarshal_args :: "string \<Rightarrow> go_error + args_map"
  json_Marshal_request :: "MCPRequest \<Rightarrow> go_error + string"
  stdin_Write :: "string list \<Rightarrow> string \<Rightarrow> go_error option"
  stdout_ReadBytes :: "string list \<Rightarrow> go_error + string"
  json_Unmarshal_response :: "string \<Rightarrow> go_error + MCPResponse"
  json_Unmarshal_result :: "string \<Rightarrow> go_error + MCPToolResult"
  json_Unmarshal_tools :: "string \<Rightarrow> go_error + string list"
  json_indent :: "string \<Rightarrow> string option"

definition msg_marshal_failed :: string where
  "msg_marshal_failed =
     [CHR 0xE5, CHR 0xBA, CHR 0x8F, CHR 0xE5, CHR 0x88, CHR 0x97, CHR 0xE5, CHR 0x8C, CHR 0x96] @
     [CHR 0xE8, CHR 0xAF, CHR 0xB7, CHR 0xE6, CHR 0xB1, CHR 0x82, CHR 0xE5, CHR 0xA4, CHR 0xB1] @
     [CHR 0xE8, CHR 0xB4, CHR 0xA5] @ '': ''"

definition msg_send_failed :: string where
  "msg_send_failed =
     [CHR 0xE5, CHR 0x8F, CHR 0x91, CHR 0xE9, CHR 0x80, CHR 0x81, CHR 0xE8, CHR 0xAF, CHR 0xB7] @
     [CHR 0xE6, CHR 0xB1, CHR 0x82, CHR 0xE5, CHR 0xA4, CHR 0xB1, CHR 0xE8, CHR 0xB4, CHR 0xA5] @
     '': ''"

definition msg_read_failed :: string where
  "msg_read_failed =
     [CHR 0xE8, CHR 0xAF, CHR 0xBB, CHR 0xE5, CHR 0x8F, CHR 0x96, CHR 0xE5, CHR 0x93, CHR 0x8D] @
     [CHR 0xE5, CHR 0xBA, CHR 0x94, CHR 0xE5, CHR 0xA4, CHR 0xB1, CHR 0xE8, CHR 0xB4, CHR 0xA5] @
     '': ''"

definition msg_parse_response_failed :: string where
  "msg_parse_response_failed =
     [CHR 0xE8, CHR 0xA7, CHR 0xA3, CHR 0xE6, CHR 0x9E, CHR 0x90, CHR 0xE5, CHR 0x93, CHR 0x8D] @
     [CHR 0xE5, CHR 0xBA, CHR 0x94, CHR 0xE5, CHR 0xA4, CHR 0xB1, CHR 0xE8, CHR 0xB4, CHR 0xA5] @
     '': ''"

definition msg_init_error :: string where
  "msg_init_error =
     ''MCP '' @
     [CHR 0xE5, CHR 0x88, CHR 0x9D, CHR 0xE5, CHR 0xA7, CHR 0x8B, CHR 0xE5, CHR 0x8C, CHR 0x96] @
     [CHR 0xE9, CHR 0x94, CHR 0x99, CHR 0xE8, CHR 0xAF, CHR 0xAF] @ '': ''"

definition msg_list_tools_failed :: string where
  "msg_list_tools_failed =
     [CHR 0xE5, CHR 0x88, CHR 0x97, CHR 0xE5, CHR 0x87, CHR 0xBA, CHR 0xE5, CHR 0xB7, CHR 0xA5] @
     [CHR 0xE5, CHR 0x85, CHR 0xB7, CHR 0xE5, CHR 0xA4, CHR 0xB1, CHR 0xE8, CHR 0xB4, CHR 0xA5] @
     '': ''"

definition msg_tool_call_failed :: string where
  "msg_tool_call_failed =
     [CHR 0xE5, CHR 0xB7, CHR 0xA5, CHR 0xE5, CHR 0x85, CHR 0xB7, CHR 0xE8, CHR 0xB0, CHR 0x83] @
     [CHR 0xE7, CHR 0x94, CHR 0xA8, CHR 0xE5, CHR 0xA4, CHR 0xB1, CHR 0xE8, CHR 0xB4, CHR 0xA5] @
     '': ''"

definition msg_parse_result_failed :: string where
  "msg_parse_result_failed =
     [CHR 0xE8, CHR 0xA7, CHR 0xA3, CHR 0xE6, CHR 0x9E, CHR 0x90, CHR 0xE5, CHR 0xB7, CHR 0xA5] @
     [CHR 0xE5, CHR 0x85, CHR 0xB7, CHR 0xE7, CHR 0xBB, CHR 0x93, CHR 0xE6, CHR 0x9E, CHR 0x9C] @
     [CHR 0xE5, CHR 0xA4, CHR 0xB1, CHR 0xE8, CHR 0xB4, CHR 0xA5] @ '': ''"

definition msg_empty_result :: string where
  "msg_empty_result =
     [CHR 0xE5, CHR 0xB7, CHR 0xA5, CHR 0xE5, CHR 0x85, CHR 0xB7, CHR 0xE8, CHR 0xBF, CHR 0x94] @
     [CHR 0xE5, CHR 0x9B, CHR 0x9E, CHR 0xE7, CHR 0xA9, CHR 0xBA, CHR 0xE7, CHR 0xBB, CHR 0x93] @
     [CHR 0xE6, CHR 0x9E, CHR 0x9C]"

definition msg_client_uninitialised :: string where
  "msg_client_uninitialised =
     ''MCP Client '' @
     [CHR 0xE6, CHR 0x9C, CHR 0xAA, CHR 0xE5, CHR 0x88, CHR 0x9D, CHR 0xE5, CHR 0xA7, CHR 0x8B] @
     [CHR 0xE5, CHR 0x8C, CHR 0x96]"

definition msg_bad_arguments :: string where
  "msg_bad_arguments =
     [CHR 0xE5, CHR 0x8F, CHR 0x82, CHR 0xE6, CHR 0x95, CHR 0xB0, CHR 0xE6, CHR 0xA0, CHR 0xBC] @
     [CHR 0xE5, CHR 0xBC, CHR 0x8F, CHR 0xE9, CHR 0x94, CHR 0x99, CHR 0xE8, CHR 0xAF, CHR 0xAF] @
     '': ''"

definition msg_invalid_request :: string where
  "msg_invalid_request =
     [CHR 0xE6, CHR 0x97, CHR 0xA0, CHR 0xE6, CHR 0x95, CHR 0x88, CHR 0xE7, CHR 0x9A, CHR 0x84] @
     [CHR 0xE8, CHR 0xAF, CHR 0xB7, CHR 0xE6, CHR 0xB1, CHR 0x82]"

definition msg_processing_failed :: string where
  "msg_processing_failed =
     [CHR 0xE5, CHR 0xA4, CHR 0x84, CHR 0xE7, CHR 0x90, CHR 0x86, CHR 0xE5, CHR 0xA4, CHR 0xB1] @
     [CHR 0xE8, CHR 0xB4, CHR 0xA5] @ '','' @
     [CHR 0xE8, CHR 0xAF, CHR 0xB7, CHR 0xE7, CHR 0xA8, CHR 0x8D, CHR 0xE5, CHR 0x90, CHR 0x8E] @
     [CHR 0xE5, CHR 0x86, CHR 0x8D, CHR 0xE8, CHR 0xAF, CHR 0x95]"

definition msg_order_failed :: string where
  "msg_order_failed =
     [CHR 0xE6, CHR 0x8A, CHR 0xB1, CHR 0xE6, CHR 0xAD, CHR 0x89, CHR 0xEF, CHR 0xBC, CHR 0x8C] @
     [CHR 0xE8, CHR 0xAE, CHR 0xA2, CHR 0xE5, CHR 0x8D, CHR 0x95, CHR 0xE5, CHR 0xA4, CHR 0x84] @
     [CHR 0xE7, CHR 0x90, CHR 0x86, CHR 0xE5, CHR 0xA4, CHR 0xB1, CHR 0xE8, CHR 0xB4, CHR 0xA5] @
     '': ''"

definition msg_tool_exec_failed :: string where
  "msg_tool_exec_failed =
     [CHR 0xE5, CHR 0xB7, CHR 0xA5, CHR 0xE5, CHR 0x85, CHR 0xB7, CHR 0xE6, CHR 0x89, CHR 0xA7] @
     [CHR 0xE8, CHR 0xA1, CHR 0x8C, CHR 0xE5, CHR 0xA4, CHR 0xB1, CHR 0xE8, CHR 0xB4, CHR 0xA5] @
     '': ''"

definition msg_fallback :: string where
  "msg_fallback =
     [CHR 0xE6, CHR 0x8A, CHR 0xB1, CHR 0xE6, CHR 0xAD, CHR 0x89] @ '','' @
     [CHR 0xE5, CHR 0xA4, CHR 0x84, CHR 0xE7, CHR 0x90, CHR 0x86, CHR 0xE6, CHR 0x82, CHR 0xA8] @
     [CHR 0xE7, CHR 0x9A, CHR 0x84, CHR 0xE8, CHR 0xAF, CHR 0xB7, CHR 0xE6, CHR 0xB1, CHR 0x82] @
     [CHR 0xE6, CHR 0x97, CHR 0xB6, CHR 0xE9, CHR 0x81, CHR 0x87, CHR 0xE5, CHR 0x88, CHR 0xB0] @
     [CHR 0xE4, CHR 0xBA, CHR 0x86, CHR 0xE9, CHR 0x97, CHR 0xAE, CHR 0xE9, CHR 0xA2, CHR 0x98] @
     '','' @
     [CHR 0xE8, CHR 0xAF, CHR 0xB7, CHR 0xE7, CHR 0xA8, CHR 0x8D, CHR 0xE5, CHR 0x90, CHR 0x8E] @
     [CHR 0xE5, CHR 0x86, CHR 0x8D, CHR 0xE8, CHR 0xAF, CHR 0x95, CHR 0xE3, CHR 0x80, CHR 0x82]"

text \<open>A Go \<open>int\<close> is 64 bits wide and wraps around.\<close>

definition wrap_int64 :: "int \<Rightarrow> int" where
  "wrap_int64 x = (x + 2 ^ 63) mod 2 ^ 64 - 2 ^ 63"

text \<open>\<open>nextID\<close>: \<open>c.msgID++\<close>, then \<open>return c.msgID\<close>.\<close>

definition nextID :: "MCPClient \<Rightarrow> int \<times> MCPClient" where
  "nextID c = (let c1 = c\<lparr>msgID := wrap_int64 (msgID c + 1)\<rparr> in (msgID c1, c1))"

text \<open>
  \<open>sendRequest\<close> as one goroutine runs it: lock, serialise, write the line, read one line,
  decode, and unlock on every way out (the deferred \<open>Unlock\<close>).
\<close>

definition sendRequest :: "env \<Rightarrow> MCPClient \<Rightarrow> MCPRequest \<Rightarrow> (go_error + MCPResponse) \<times> MCPClient" where
  "sendRequest e c req =
     (let c1 = c\<lparr>mu := True\<rparr> in
      case json_Marshal_request e req of
        Inl err \<Rightarrow> (Inl (msg_marshal_failed @ err), c1\<lparr>mu := False\<rparr>)
      | Inr reqJSON \<Rightarrow>
          (case stdin_Write e (written c1) (reqJSON @ [CHR 0x0A]) of
             Some err \<Rightarrow> (Inl (msg_send_failed @ err), c1\<lparr>mu := False\<rparr>)
           | None \<Rightarrow>
               let c2 = c1\<lparr>written := written c1 @ [reqJSON @ [CHR 0x0A]]\<rparr> in
               (case stdout_ReadBytes e (written c2) of
                  Inl err \<Rightarrow> (Inl (msg_read_failed @ err), c2\<lparr>mu := False\<rparr>)
                | Inr respLine \<Rightarrow>
                    (case json_Unmarshal_response e respLine of
                       Inl err \<Rightarrow> (Inl (msg_parse_response_failed @ err), c2\<lparr>mu := False\<rparr>)
                     | Inr resp \<Rightarrow> (Inr resp, c2\<lparr>mu := False\<rparr>)))))"

definition initialize :: "env \<Rightarrow> MCPClient \<Rightarrow> go_error option \<times> MCPClient" where
  "initialize e c =
     (let (i, c1) = nextID c;
          req = \<lparr>Jsonrpc = ''2.0'', req_ID = i, Method = ''initialize'', Params = InitializeParams\<rparr>
      in case sendRequest e c1 req of
           (Inl err, c2) \<Rightarrow> (Some err, c2)
         | (Inr resp, c2) \<Rightarrow>
             (case Error resp of
                Some er \<Rightarrow> (Some (msg_init_error @ err_Message er), c2)
              | None \<Rightarrow> (None, c2)))"

definition ListTools :: "env \<Rightarrow> MCPClient \<Rightarrow> (go_error + string list) \<times> MCPClient" where
  "ListTools e c =
     (let (i, c1) = nextID c;
          req = \<lparr>Jsonrpc = ''2.0'', req_ID = i, Method = ''tools/list'', Params = NoParams\<rparr>
      in case sendRequest e c1 req of
           (Inl err, c2) \<Rightarrow> (Inl err, c2)
         | (Inr resp, c2) \<Rightarrow>
             (case Error resp of
                Some er \<Rightarrow> (Inl (msg_list_tools_failed @ err_Message er), c2)
              | None \<Rightarrow>
                  (case json_Unmarshal_tools e (Result resp) of
                     Inl err \<Rightarrow> (Inl err, c2)
                   | Inr toolNames \<Rightarrow> (Inr toolNames, c2))))"

text \<open>\<open>CallTool\<close>: the id is taken first, then the exchange runs inside \<open>sendRequest\<close>.\<close>

definition CallTool :: "env \<Rightarrow> MCPClient \<Rightarrow> string \<Rightarrow> args_map \<Rightarrow> (go_error + string) \<times> MCPClient" where
  "CallTool e c toolName arguments =
     (let (i, c1) = nextID c;
          req = \<lparr>Jsonrpc = ''2.0'', req_ID = i, Method = ''tools/call'',
                 Params = ToolCallParams toolName arguments\<rparr>
      in case sendRequest e c1 req of
           (Inl err, c2) \<Rightarrow> (Inl err, c2)
         | (Inr resp, c2) \<Rightarrow>
             (case Error resp of
                Some er \<Rightarrow> (Inl (msg_tool_call_failed @ err_Message er), c2)
              | None \<Rightarrow>
                  (case json_Unmarshal_result e (Result resp) of
                     Inl err \<Rightarrow> (Inl (msg_parse_result_failed @ err), c2)
                   | Inr toolResult \<Rightarrow>
                       if length (result_Content toolResult) > 0
                       then (Inr (block_Text (result_Content toolResult ! 0)), c2)
                       else (Inl msg_empty_result, c2))))"

text \<open>
  \<open>ToolExecutor.Execute\<close>. The process-wide client \<open>globalMCPClient\<close> is \<open>None\<close> while it is
  nil.
\<close>

definition Execute :: "env \<Rightarrow> MCPClient option \<Rightarrow> string \<Rightarrow> string \<Rightarrow> (go_error + string) \<times> MCPClient option" where
  "Execute e g toolName arguments =
     (case g of
        None \<Rightarrow> (Inl msg_client_uninitialised, g)
      | Some mcpClient \<Rightarrow>
          (case json_Unmarshal_args e arguments of
             Inl err \<Rightarrow> (Inl (msg_bad_arguments @ err), g)
           | Inr args \<Rightarrow>
               (case CallTool e mcpClient toolName args of
                  (Inl err, c1) \<Rightarrow> (Inl (msg_tool_call_failed @ err), Some c1)
                | (Inr result, c1) \<Rightarrow> (Inr result, Some c1))))"

section \<open>The chat endpoint\<close>

datatype http_body = ErrorJSON string | ChatJSON ChatResponse

type_synonym http_response = "nat \<times> http_body"

text \<open>
  \<open>c.ShouldBindJSON(&req)\<close>: the body either decodes to a request or not, and the field
  \<open>message\<close> is required, so a request with an empty message is refused as well.
\<close>

definition ShouldBindJSON :: "ChatRequest option \<Rightarrow> go_error + ChatRequest" where
  "ShouldBindJSON body =
     (case body of
        None \<Rightarrow> Inl ''invalid request body''
      | Some req \<Rightarrow> if req_Message req = [] then Inl ''message is required'' else Inr req)"

text \<open>
  \<open>HandleChat\<close>: the response written to the client and the state of the gateway
  afterwards. The outer \<open>option\<close> is \<open>None\<close> for a run-time panic.
\<close>

definition HandleChat :: "env \<Rightarrow> MCPClient option \<Rightarrow> ChatRequest option \<Rightarrow> (http_response \<times> MCPClient option) option" where
  "HandleChat e g body =
     (case ShouldBindJSON body of
        Inl err \<Rightarrow> Some ((400, ErrorJSON msg_invalid_request), g)
      | Inr req \<Rightarrow>
          let knowledgeDocs = (case SearchKnowledge e (req_Message req) 3 of
                                 Inl err \<Rightarrow> [] | Inr docs \<Rightarrow> docs);
              messages = assemble_messages req knowledgeDocs
          in case Chat e messages [] of
               Inl err \<Rightarrow> Some ((500, ErrorJSON msg_processing_failed), g)
             | Inr response \<Rightarrow>
                 let responseText = Output_Text response in
                 do {
                   (toolCall, found) \<leftarrow> parseToolCallFromXML responseText;
                   if found then
                     (case Execute e g (ToolName toolCall) (Arguments toolCall) of
                        (Inl err, g1) \<Rightarrow>
                          Some ((200, ChatJSON \<lparr>Reply = msg_order_failed @ err,
                                                 resp_SessionID = SessionID req\<rparr>), g1)
                      | (Inr result, g1) \<Rightarrow>
                          Some ((200, ChatJSON \<lparr>Reply = buildFinalReply responseText result,
                                                 resp_SessionID = SessionID req\<rparr>), g1))
                   else Some ((200, ChatJSON \<lparr>Reply = responseText,
                                                resp_SessionID = SessionID req\<rparr>), g)
                 })"

section \<open>The iterative tool-calling loop\<close>

definition maxIterations :: nat where
  "maxIterations = 5"

text \<open>
  The body of the inner loop of \<open>chatWithToolCalling\<close> for one tool call: execute the tool,
  take the failure text as the result when it fails, and use the indented JSON as the
  content when the result is a JSON object (\<open>json_indent\<close> returns it then).
\<close>

definition tool_result_message :: "env \<Rightarrow> MCPClient option \<Rightarrow> ToolCall \<Rightarrow> Message \<times> MCPClient option" where
  "tool_result_message e g toolCall =
     (case Execute e g (fn_Name toolCall) (fn_Arguments toolCall) of
        (r, g1) \<Rightarrow>
          let result = (case r of Inl err \<Rightarrow> msg_tool_exec_failed @ err | Inr res \<Rightarrow> res);
              toolResultMsg = \<lparr>Role = ''tool'', Content = result\<rparr>;
              toolResultMsg = (case json_indent e result of
                                 Some prettyBytes \<Rightarrow> toolResultMsg\<lparr>Content := prettyBytes\<rparr>
                               | None \<Rightarrow> toolResultMsg)
          in (toolResultMsg, g1))"

fun run_tool_calls :: "env \<Rightarrow> ToolCall list \<Rightarrow> Message list \<Rightarrow> MCPClient option \<Rightarrow> Message list \<times> MCPClient option" where
  "run_tool_calls e [] currentMessages g = (currentMessages, g)"
| "run_tool_calls e (toolCall # rest) currentMessages g =
     (case tool_result_message e g toolCall of
        (toolResultMsg, g1) \<Rightarrow> run_tool_calls e rest (currentMessages @ [toolResultMsg]) g1)"

text \<open>
  The loop \<open>for i := 0; i < maxIterations; i++\<close>. Besides what the Go function returns, the
  model reports the number of calls to the model made so far and the conversation at the
  end, so that statements about the rounds can be made.
\<close>

function tool_loop :: "env \<Rightarrow> Tool list \<Rightarrow> nat \<Rightarrow> Message list \<Rightarrow> MCPClient option
    \<Rightarrow> (go_error + string) \<times> nat \<times> Message list \<times> MCPClient option" where
  "tool_loop e tools i currentMessages g =
     (if i < maxIterations then
        (case Chat e currentMessages tools of
           Inl err \<Rightarrow> (Inl err, i + 1, currentMessages, g)
         | Inr response \<Rightarrow>
             if ShouldCallTool response then
               (case run_tool_calls e (GetToolCalls response)
                       (currentMessages @ [\<lparr>Role = ''assistant'', Content = []\<rparr>]) g of
                  (msgs, g1) \<Rightarrow> tool_loop e tools (i + 1) msgs g1)
             else (Inr (GetTextResponse response), i + 1, currentMessages, g))
      else (Inr msg_fallback, i, currentMessages, g))"
  by pat_completeness auto

termination
  by (relation "measure (\<lambda>(e, tools, i, msgs, g). maxIterations - i)") auto

declare tool_loop.simps [simp del]

definition chatWithToolCalling :: "env \<Rightarrow> MCPClient option \<Rightarrow> Message list \<Rightarrow> Tool list
    \<Rightarrow> (go_error + string) \<times> MCPClient option" where
  "chatWithToolCalling e g messages tools =
     (case tool_loop e tools 0 messages g of (r, n, msgs, g1) \<Rightarrow> (r, g1))"

section \<open>Concurrent tool calls\<close>

text \<open>
  Each chat request runs in a goroutine of its own, and all of them share the one client.
  The model interleaves the statements of concurrent \<open>CallTool\<close> runs; a statement is taken
  as one atomic step (which is more than Go promises for the unsynchronised counter). The
  position of a goroutine in \<open>CallTool\<close>:
  \<^item> \<open>AtInc\<close>: before \<open>c.msgID++\<close> in \<open>nextID\<close>;
  \<^item> \<open>AtReturn\<close>: before \<open>return c.msgID\<close> in \<open>nextID\<close>;
  \<^item> \<open>AtLock i\<close>: the request with id \<open>i\<close> is built, before \<open>c.mu.Lock()\<close> in \<open>sendRequest\<close>;
  \<^item> \<open>AtWrite i\<close>: holding the lock, before the request line is written;
  \<^item> \<open>AtRead i\<close>: before the response line is read;
  \<^item> \<open>AtUnlock i\<close>: before the deferred \<open>c.mu.Unlock()\<close>;
  \<^item> \<open>Finished i\<close>: returned.
  Writes and reads are taken to succeed.
\<close>

datatype pc = AtInc | AtReturn | AtLock int | AtWrite int | AtRead int | AtUnlock int | Finished int

datatype event = Sent nat int | Received nat

record conc_state =
  client :: MCPClient
  pcs :: "pc list"
  events :: "event list"

text \<open>
  One step of goroutine \<open>t\<close>; \<open>None\<close> when it cannot move (it waits for the lock, it has
  returned, or there is no such goroutine). \<open>line i\<close> is the serialised request with id \<open>i\<close>.
\<close>

definition step_thread :: "(int \<Rightarrow> string) \<Rightarrow> nat \<Rightarrow> conc_state \<Rightarrow> conc_state option" where
  "step_thread line t st =
     (if length (pcs st) \<le> t then None
      else case pcs st ! t of
        AtInc \<Rightarrow>
          Some (st\<lparr>client := (client st)\<lparr>msgID := wrap_int64 (msgID (client st) + 1)\<rparr>,
                   pcs := (pcs st)[t := AtReturn]\<rparr>)
      | AtReturn \<Rightarrow> Some (st\<lparr>pcs := (pcs st)[t := AtLock (msgID (client st))]\<rparr>)
      | AtLock i \<Rightarrow>
          if mu (client st) then None
          else Some (st\<lparr>client := (client st)\<lparr>mu := True\<rparr>, pcs := (pcs st)[t := AtWrite i]\<rparr>)
      | AtWrite i \<Rightarrow>
          Some (st\<lparr>client := (client st)\<lparr>written := written (client st) @ [line i @ [CHR 0x0A]]\<rparr>,
                   pcs := (pcs st)[t := AtRead i], events := events st @ [Sent t i]\<rparr>)
      | AtRead i \<Rightarrow> Some (st\<lparr>pcs := (pcs st)[t := AtUnlock i], events := events st @ [Received t]\<rparr>)
      | AtUnlock i \<Rightarrow>
          Some (st\<lparr>client := (client st)\<lparr>mu := False\<rparr>, pcs := (pcs st)[t := Finished i]\<rparr>)
      | Finished i \<Rightarrow> None)"

text \<open>A schedule is the list of the goroutines that move, in order.\<close>

fun run :: "(int \<Rightarrow> string) \<Rightarrow> nat list \<Rightarrow> conc_state \<Rightarrow> conc_state option" where
  "run line [] st = Some st"
| "run line (t # ts) st =
     (case step_thread line t st of None \<Rightarrow> None | Some st1 \<Rightarrow> run line ts st1)"

text \<open>\<open>n\<close> calls of \<open>CallTool\<close> start on the client \<open>c\<close>.\<close>

definition concurrent_calls :: "nat \<Rightarrow> MCPClient \<Rightarrow> conc_state" where
  "concurrent_calls n c = \<lparr>client = c, pcs = replicate n AtInc, events = []\<rparr>"

section \<open>Notions used in the statements\<close>

text \<open>
  A marker whose first byte does not occur again in it cannot overlap a copy of itself; all
  six markers of the directive grammar are of this kind, their only \<open><\<close> being the first byte.
\<close>

definition headless :: "string \<Rightarrow> bool" where
  "headless m = (m \<noteq> [] \<and> hd m \<notin> set (tl m))"

text \<open>
  An environment in which retrieval returns the given documents, the model answers every
  call with the given response, \<open>json.Unmarshal\<close> reads the text \<open>{}\<close> as the empty mapping,
  every write succeeds, and the sidecar answers every request with a line that decodes to
  the given response and tool result.
\<close>

definition fixed_env :: "Document list \<Rightarrow> llm_ChatResponse \<Rightarrow> MCPResponse \<Rightarrow> MCPToolResult \<Rightarrow> env" where
  "fixed_env docs response mcpResp toolResult =
     \<lparr>SearchKnowledge = (\<lambda>query topK. Inr docs),
      Chat = (\<lambda>messages tools. Inr response),
      json_Unmarshal_args = (\<lambda>s. if s = ''{}'' then Inr [] else Inl ''unexpected input''),
      json_Marshal_request = (\<lambda>req. Inr (''request '' @ Itoa (req_ID req))),
      stdin_Write = (\<lambda>log line. None),
      stdout_ReadBytes = (\<lambda>log. Inr (''response'' @ [CHR 0x0A])),
      json_Unmarshal_response = (\<lambda>line. Inr mcpResp),
      json_Unmarshal_result = (\<lambda>raw. Inr toolResult),
      json_Unmarshal_tools = (\<lambda>raw. Inr []),
      json_indent = (\<lambda>s. None)\<rparr>"

definition text_response :: "string \<Rightarrow> llm_ChatResponse" where
  "text_response t = \<lparr>Output_Text = t, Output_FinishReason = ''stop'', Output_Choices = []\<rparr>"

definition ok_response :: MCPResponse where
  "ok_response = \<lparr>resp_Jsonrpc = ''2.0'', resp_ID = 2, Result = ''result'', Error = None\<rparr>"

definition one_block :: "string \<Rightarrow> MCPToolResult" where
  "one_block t = \<lparr>result_Content = [\<lparr>block_Type = ''text'', block_Text = t\<rparr>]\<rparr>"

definition plain_request :: "string \<Rightarrow> HistoryMessage list \<Rightarrow> ChatRequest" where
  "plain_request m h = \<lparr>req_Message = m, UserID = ''u1'', SessionID = ''s1'', History = h\<rparr>"

text \<open>
  One entry of the enumerated list in the context message, as the loop of \<open>FormatContext\<close>
  writes it for the document with number \<open>n\<close>: the number, the text, and a category line when
  the metadata holds a category that is a string.
\<close>

definition context_entry :: "nat \<Rightarrow> Document \<Rightarrow> string" where
  "context_entry n doc =
     Itoa (int n) @ ''. '' @ doc_Text doc @ [CHR 0x0A]
     @ (case map_of (Metadata doc) ''category'' of
          Some (MetaString category) \<Rightarrow> category_label @ category @ [CHR 0x0A]
        | _ \<Rightarrow> [])"

definition history_message :: "HistoryMessage \<Rightarrow> Message" where
  "history_message h = \<lparr>Role = hist_Role h, Content = hist_Content h\<rparr>"

text \<open>The history entries the assembler skips: those of the user that repeat the current message.\<close>

definition echoes :: "string \<Rightarrow> HistoryMessage \<Rightarrow> bool" where
  "echoes msg h = (hist_Role h = ''user'' \<and> hist_Content h = msg)"

definition faq_document :: Document where
  "faq_document = \<lparr>doc_ID = ''d1'', doc_Text = ''Returns within 7 days'',
                    Metadata = [(''category'', MetaString ''after-sales'')]\<rparr>"

definition order_reply :: string where
  "order_reply = ''Sure. <func_call><tool_name>query_order</tool_name><arguments></arguments></func_call> ''"

definition fresh_client :: MCPClient where
  "fresh_client = \<lparr>msgID = 2, mu = False, written = []\<rparr>"

text \<open>The request \<open>CallTool\<close> builds, and the client as \<open>nextID\<close> leaves it.\<close>

definition tool_call_request :: "MCPClient \<Rightarrow> string \<Rightarrow> args_map \<Rightarrow> MCPRequest" where
  "tool_call_request c toolName arguments =
     \<lparr>Jsonrpc = ''2.0'', req_ID = fst (nextID c), Method = ''tools/call'',
      Params = ToolCallParams toolName arguments\<rparr>"

definition error_response :: MCPResponse where
  "error_response = \<lparr>resp_Jsonrpc = ''2.0'', resp_ID = 3, Result = [],
                      Error = Some \<lparr>err_Code = - 32000, err_Message = ''out of stock''\<rparr>\<rparr>"

text \<open>
  The typing policy in the words of the specification: the customer phone number and the
  order identifier stay text; any other field becomes an integer when its trimmed value
  parses fully as one, and stays text otherwise.
\<close>

definition typed_value :: "string \<Rightarrow> string \<Rightarrow> jvalue" where
  "typed_value key v =
     (if key = ''customerPhone'' \<or> key = ''orderId'' then JString v
      else case Atoi v of Some i \<Rightarrow> JInt i | None \<Rightarrow> JString v)"

definition nameless_reply :: string where
  "nameless_reply = ''One moment. <func_call><arguments><a>1</a></arguments></func_call>''"

definition bare_reply :: string where
  "bare_reply = ''<func_call><tool_name> list_orders </tool_name><arguments> <a>1</b> </arguments></func_call>''"




definition word :: "string \<Rightarrow> bool" where
  "word k = (k \<noteq> [] \<and> list_all is_word k)"





text \<open>The number of calls to the model that a run of \<open>chatWithToolCalling\<close> makes.\<close>

definition model_rounds :: "env \<Rightarrow> MCPClient option \<Rightarrow> Message list \<Rightarrow> Tool list \<Rightarrow> nat" where
  "model_rounds e g messages tools = fst (snd (tool_loop e tools 0 messages g))"

text \<open>
  "Each of the next \<open>n\<close> rounds requests a tool call", along the run that starts with the
  given conversation.
\<close>

fun rounds_request_tools :: "env \<Rightarrow> Tool list \<Rightarrow> nat \<Rightarrow> Message list \<Rightarrow> MCPClient option \<Rightarrow> bool" where
  "rounds_request_tools e tools 0 msgs g = True"
| "rounds_request_tools e tools (Suc n) msgs g =
     (case Chat e msgs tools of
        Inl err \<Rightarrow> False
      | Inr response \<Rightarrow>
          ShouldCallTool response
          \<and> (case run_tool_calls e (GetToolCalls response)
                     (msgs @ [\<lparr>Role = ''assistant'', Content = []\<rparr>]) g of
               (msgs1, g1) \<Rightarrow> rounds_request_tools e tools n msgs1 g1))"

definition tool_calls_response :: llm_ChatResponse where
  "tool_calls_response =
     \<lparr>Output_Text = [], Output_FinishReason = [],
      Output_Choices =
        [\<lparr>FinishReason = ''tool_calls'', msg_Content = [],
          ToolCalls = [\<lparr>call_ID = ''call_1'', call_Type = ''function'',
                        fn_Name = ''query_order'', fn_Arguments = ''{}''\<rparr>]\<rparr>]\<rparr>"

text \<open>
  The outcomes of \<open>Execute\<close> for the tool calls of one round, in the order of the calls, each
  call made on the client as the call before it left it, and the client after the last.
\<close>

fun executed_results :: "env \<Rightarrow> MCPClient option \<Rightarrow> ToolCall list
    \<Rightarrow> (go_error + string) list \<times> MCPClient option" where
  "executed_results e g [] = ([], g)"
| "executed_results e g (toolCall # rest) =
     (case Execute e g (fn_Name toolCall) (fn_Arguments toolCall) of
        (r, g1) \<Rightarrow> (case executed_results e g1 rest of (rs, g2) \<Rightarrow> (r # rs, g2)))"

text \<open>
  The tool-result message for one outcome: its text is the result of the tool, or the
  failure text followed by the error; the content is that text, indented when it is a JSON
  object.
\<close>

definition result_text :: "go_error + string \<Rightarrow> string" where
  "result_text r = (case r of Inl err \<Rightarrow> msg_tool_exec_failed @ err | Inr res \<Rightarrow> res)"

definition result_message :: "env \<Rightarrow> go_error + string \<Rightarrow> Message" where
  "result_message e r =
     \<lparr>Role = ''tool'',
      Content = (case json_indent e (result_text r) of
                   Some pretty \<Rightarrow> pretty
                 | None \<Rightarrow> result_text r)\<rparr>"

definition tool_messages :: "env \<Rightarrow> MCPClient option \<Rightarrow> ToolCall list \<Rightarrow> Message list" where
  "tool_messages e g toolCalls = map (result_message e) (fst (executed_results e g toolCalls))"

definition client_after :: "env \<Rightarrow> MCPClient option \<Rightarrow> ToolCall list \<Rightarrow> MCPClient option" where
  "client_after e g toolCalls = snd (executed_results e g toolCalls)"

text \<open>
  A response that requests two tool calls, the second with arguments that do not decode,
  and an environment in which the model requests them until the conversation ends with a
  tool result, the tool returns a JSON object, and \<open>json.MarshalIndent\<close> indents it.
\<close>

definition json_a1 :: string where
  "json_a1 = ''{'' @ [CHR 0x22] @ ''a'' @ [CHR 0x22] @ '':1}''"

definition json_a1_indented :: string where
  "json_a1_indented = ''{'' @ [CHR 0x0A] @ ''  '' @ [CHR 0x22] @ ''a'' @ [CHR 0x22] @ '': 1'' @ [CHR 0x0A] @ ''}''"

definition two_calls_response :: llm_ChatResponse where
  "two_calls_response =
     \<lparr>Output_Text = [], Output_FinishReason = [],
      Output_Choices =
        [\<lparr>FinishReason = ''tool_calls'', msg_Content = [],
          ToolCalls = [\<lparr>call_ID = ''call_1'', call_Type = ''function'',
                        fn_Name = ''query_order'', fn_Arguments = ''{}''\<rparr>,
                       \<lparr>call_ID = ''call_2'', call_Type = ''function'',
                        fn_Name = ''query_order'', fn_Arguments = ''oops''\<rparr>]\<rparr>]\<rparr>"

definition two_round_env :: env where
  "two_round_env =
     (fixed_env [] two_calls_response ok_response (one_block json_a1))
       \<lparr>Chat := (\<lambda>messages tools.
                   if messages \<noteq> [] \<and> Role (last messages) = ''tool''
                   then Inr (text_response ''Your order has shipped'')
                   else Inr two_calls_response),
        json_indent := (\<lambda>s. if s = json_a1 then Some json_a1_indented else None)\<rparr>"

text \<open>
  The log of a run is complete when it is a sequence of exchanges, each a request line and
  the response line read by the goroutine that wrote the request.
\<close>

definition exchange :: "nat \<times> int \<Rightarrow> event list" where
  "exchange p = [Sent (fst p) (snd p), Received (fst p)]"

definition complete :: "event list \<Rightarrow> bool" where
  "complete es = (\<exists>ps. es = concat (map exchange ps))"

definition in_cs :: "pc \<Rightarrow> bool" where
  "in_cs p = (case p of AtWrite i \<Rightarrow> True | AtRead i \<Rightarrow> True | AtUnlock i \<Rightarrow> True | _ \<Rightarrow> False)"

definition is_reading :: "pc \<Rightarrow> bool" where
  "is_reading p = (case p of AtRead i \<Rightarrow> True | _ \<Rightarrow> False)"

definition lock_invariant :: "conc_state \<Rightarrow> bool" where
  "lock_invariant st =
     ((\<forall>t t'. t < length (pcs st) \<and> t' < length (pcs st)
              \<and> in_cs (pcs st ! t) \<and> in_cs (pcs st ! t') \<longrightarrow> t = t')
      \<and> (mu (client st) \<longleftrightarrow> (\<exists>t < length (pcs st). in_cs (pcs st ! t)))
      \<and> (\<forall>t < length (pcs st). \<forall>i. pcs st ! t = AtRead i \<longrightarrow>
            (\<exists>es. events st = es @ [Sent t i] \<and> complete es))
      \<and> ((\<forall>t < length (pcs st). \<not> is_reading (pcs st ! t)) \<longrightarrow> complete (events st)))"

section \<open>Facts about the matchers\<close>

lemma Contains_iff: "Contains s m \<longleftrightarrow> (\<exists>a b. s = a @ m @ b)"
proof (induction s)
  case Nil
  then show ?case by auto
next
  case (Cons c cs)
  show ?case
  proof
    assume "Contains (c # cs) m"
    then consider "prefix m (c # cs)" | "Contains cs m" by auto
    then show "\<exists>a b. c # cs = a @ m @ b"
    proof cases
      case 1
      then obtain b where "c # cs = m @ b" by (auto simp: prefix_def)
      then have "c # cs = [] @ m @ b" by simp
      then show ?thesis by blast
    next
      case 2
      with Cons.IH obtain a b where "cs = a @ m @ b" by auto
      then have "c # cs = (c # a) @ m @ b" by simp
      then show ?thesis by blast
    qed
  next
    assume "\<exists>a b. c # cs = a @ m @ b"
    then obtain a b where ab: "c # cs = a @ m @ b" by auto
    show "Contains (c # cs) m"
    proof (cases a)
      case Nil
      with ab have "prefix m (c # cs)" by (simp add: prefix_def)
      then show ?thesis by simp
    next
      case (Cons x a')
      with ab have "cs = a' @ m @ b" by simp
      with Cons.IH have "Contains cs m" by blast
      then show ?thesis by simp
    qed
  qed
qed

lemma headless_no_overlap:
  assumes "headless m" "x \<noteq> []" "\<not> prefix m x"
  shows "\<not> prefix m (x @ m @ b)"
proof
  assume p: "prefix m (x @ m @ b)"
  then obtain zs where zs: "x @ m @ b = m @ zs" by (auto simp: prefix_def)
  show False
  proof (cases "length m \<le> length x")
    case True
    have "take (length m) (x @ m @ b) = take (length m) x" using True by simp
    moreover have "take (length m) (m @ zs) = m" by simp
    ultimately have "m = take (length m) x" using zs by simp
    then have "prefix m x" by (metis take_is_prefix)
    with assms(3) show False by simp
  next
    case False
    then have lt: "length x < length m" by simp
    have "(x @ m @ b) ! length x = hd m"
      using assms(1) by (simp add: headless_def nth_append hd_conv_nth)
    moreover have "(m @ zs) ! length x = m ! length x" using lt by (simp add: nth_append)
    ultimately have "m ! length x = hd m" using zs by simp
    moreover have "0 < length x" using assms(2) by simp
    ultimately have "hd m \<in> set (tl m)"
      using lt by (metis Suc_pred in_set_conv_nth length_tl less_diff_conv nth_tl add.commute plus_1_eq_Suc)
    with assms(1) show False by (simp add: headless_def)
  qed
qed

lemma lazy_any_until_first:
  assumes "headless m" "\<not> Contains a m"
  shows "lazy_any_until m (a @ m @ b) = Some (a, b)"
  using assms(2)
proof (induction a)
  case Nil
  from assms(1) obtain c cs where m: "m = c # cs" by (cases m) (auto simp: headless_def)
  show ?case unfolding m by simp
next
  case (Cons c a)
  from Cons.prems have np: "\<not> prefix m (c # a)" and nc: "\<not> Contains a m" by auto
  have "\<not> prefix m ((c # a) @ m @ b)"
    by (rule headless_no_overlap [OF assms(1) _ np]) simp
  with Cons.IH [OF nc] show ?case by simp
qed

lemma lazy_any_until_None:
  assumes "\<not> Contains s m"
  shows "lazy_any_until m s = None"
proof (cases "lazy_any_until m s")
  case None
  then show ?thesis .
next
  case (Some r)
  obtain a b where "r = (a, b)" by (cases r)
  with Some have "s = a @ m @ b" by (simp add: lazy_any_until_Some)
  with assms show ?thesis by (auto simp: Contains_iff)
qed

lemma lazy_dot_until_Some:
  "lazy_dot_until lit s = Some (a, b) \<Longrightarrow> s = a @ lit @ b \<and> CHR 0x0A \<notin> set a"
proof (induction s arbitrary: a)
  case Nil
  then show ?case by (simp split: if_splits)
next
  case (Cons c cs)
  show ?case
  proof (cases "prefix lit (c # cs)")
    case True
    then obtain zs where zs: "c # cs = lit @ zs" by (auto simp: prefix_def)
    from Cons.prems True have ab: "a = []" "b = drop (length lit) (c # cs)" by simp_all
    have "drop (length lit) (c # cs) = zs" unfolding zs by simp
    with ab zs show ?thesis by simp
  next
    case False
    with Cons.prems have c: "c \<noteq> CHR 0x0A" by (auto split: if_splits)
    with False Cons.prems obtain a' where "lazy_dot_until lit cs = Some (a', b)" "a = c # a'"
      by auto
    with Cons.IH c show ?thesis by simp
  qed
qed

lemma lazy_dot_until_first:
  assumes "headless m" "\<not> Contains a m" "CHR 0x0A \<notin> set a"
  shows "lazy_dot_until m (a @ m @ b) = Some (a, b)"
  using assms(2,3)
proof (induction a)
  case Nil
  from assms(1) obtain c cs where m: "m = c # cs" by (cases m) (auto simp: headless_def)
  show ?case unfolding m by simp
next
  case (Cons c a)
  from Cons.prems have np: "\<not> prefix m (c # a)" and nc: "\<not> Contains a m"
    and nl: "c \<noteq> CHR 0x0A" "CHR 0x0A \<notin> set a" by auto
  have "\<not> prefix m ((c # a) @ m @ b)"
    by (rule headless_no_overlap [OF assms(1) _ np]) simp
  with Cons.IH [OF nc nl(2)] nl(1) show ?case by simp
qed

lemma leftmost_first:
  assumes req: "\<And>t. \<not> prefix opn t \<Longrightarrow> try t = None"
    and "headless opn" "\<not> Contains pre opn" "try (opn @ rest) = Some r"
  shows "leftmost try (pre @ opn @ rest) = Some (pre, r)"
  using assms(3)
proof (induction pre)
  case Nil
  from assms(2) obtain c cs where m: "opn = c # cs" by (cases opn) (auto simp: headless_def)
  from assms(4) show ?case unfolding m by simp
next
  case (Cons c p)
  from Cons.prems have np: "\<not> prefix opn (c # p)" and nc: "\<not> Contains p opn" by auto
  have "\<not> prefix opn ((c # p) @ opn @ rest)"
    by (rule headless_no_overlap [OF assms(2) _ np]) simp
  then have "try (c # p @ opn @ rest) = None" using req by simp
  with Cons.IH [OF nc] show ?case by simp
qed

lemma leftmost_None:
  assumes "\<And>t. suffix t s \<Longrightarrow> try t = None"
  shows "leftmost try s = None"
  using assms
proof (induction s)
  case Nil
  then show ?case by simp
next
  case (Cons c cs)
  have "try (c # cs) = None" using Cons.prems by simp
  moreover have "leftmost try cs = None"
    by (rule Cons.IH) (simp add: Cons.prems suffix_ConsI)
  ultimately show ?case by simp
qed

lemma Contains_suffix: "suffix t s \<Longrightarrow> Contains t m \<Longrightarrow> Contains s m"
  by (auto simp: Contains_iff suffix_def) (metis append.assoc)

lemma leftmost_any_block_first:
  assumes "headless opn" "\<not> Contains pre opn" "headless cls" "\<not> Contains body cls"
  shows "leftmost (any_block_at opn cls) (pre @ opn @ body @ cls @ post) = Some (pre, body, post)"
proof (rule leftmost_first [OF _ assms(1,2)])
  show "\<And>t. \<not> prefix opn t \<Longrightarrow> any_block_at opn cls t = None"
    by (simp add: any_block_at_def)
  show "any_block_at opn cls (opn @ body @ cls @ post) = Some (body, post)"
    using lazy_any_until_first [OF assms(3,4)] by (simp add: any_block_at_def)
qed

lemma leftmost_dot_block_first:
  assumes "headless opn" "\<not> Contains pre opn" "headless cls" "\<not> Contains body cls"
    "CHR 0x0A \<notin> set body"
  shows "leftmost (dot_block_at opn cls) (pre @ opn @ body @ cls @ post) = Some (pre, body, post)"
proof (rule leftmost_first [OF _ assms(1,2)])
  show "\<And>t. \<not> prefix opn t \<Longrightarrow> dot_block_at opn cls t = None"
    by (simp add: dot_block_at_def)
  show "dot_block_at opn cls (opn @ body @ cls @ post) = Some (body, post)"
    using lazy_dot_until_first [OF assms(3,4,5)] by (simp add: dot_block_at_def)
qed

lemma leftmost_any_block_None:
  assumes "\<not> Contains s opn \<or> \<not> Contains s cls"
  shows "leftmost (any_block_at opn cls) s = None"
proof (cases "leftmost (any_block_at opn cls) s")
  case None
  then show ?thesis .
next
  case (Some r)
  obtain pre body post where "r = (pre, body, post)" by (cases r)
  with Some have s: "s = pre @ opn @ body @ cls @ post" by (simp add: leftmost_any_block_Some)
  have "Contains s opn" unfolding Contains_iff using s by blast
  moreover have "s = (pre @ opn @ body) @ cls @ post" using s by simp
  then have "Contains s cls" unfolding Contains_iff by blast
  ultimately show ?thesis using assms by simp
qed

lemma leftmost_dot_block_Some:
  "leftmost (dot_block_at opn cls) s = Some (pre, body, post) \<Longrightarrow>
     s = pre @ opn @ body @ cls @ post \<and> CHR 0x0A \<notin> set body"
proof -
  assume "leftmost (dot_block_at opn cls) s = Some (pre, body, post)"
  then obtain rest where r: "s = pre @ rest" "dot_block_at opn cls rest = Some (body, post)"
    by (auto dest!: leftmost_Some)
  then have p: "prefix opn rest" and l: "lazy_dot_until cls (drop (length opn) rest) = Some (body, post)"
    by (auto simp: dot_block_at_def split: if_splits)
  from p obtain zs where zs: "rest = opn @ zs" by (auto simp: prefix_def)
  with l have "zs = body @ cls @ post \<and> CHR 0x0A \<notin> set body" by (simp add: lazy_dot_until_Some)
  with zs r show ?thesis by simp
qed

lemma leftmost_dot_block_None:
  assumes "\<not> Contains s opn \<or> \<not> Contains s cls"
  shows "leftmost (dot_block_at opn cls) s = None"
proof (cases "leftmost (dot_block_at opn cls) s")
  case None
  then show ?thesis .
next
  case (Some r)
  obtain pre body post where "r = (pre, body, post)" by (cases r)
  with Some have s: "s = pre @ opn @ body @ cls @ post" by (simp add: leftmost_dot_block_Some)
  have "Contains s opn" unfolding Contains_iff using s by blast
  moreover have "s = (pre @ opn @ body) @ cls @ post" using s by simp
  then have "Contains s cls" unfolding Contains_iff by blast
  ultimately show ?thesis using assms by simp
qed

section \<open>A response without a directive\<close>

text \<open>
  C4, as the code has it. When the response text of the model does not contain the marker
  \<open><func_call>\<close>, the extractor reports that no directive was found, and the endpoint
  answers with status 200 and a reply that is the response text itself, byte for byte:
  the text is not trimmed.
\<close>

theorem C4_reply_is_response_unchanged:
  assumes "\<not> Contains (Output_Text response) ''<func_call>''"
    and "ShouldBindJSON body = Inr req"
    and "Chat e (assemble_messages req
            (case SearchKnowledge e (req_Message req) 3 of Inl err \<Rightarrow> [] | Inr docs \<Rightarrow> docs)) []
          = Inr response"
  shows "parseToolCallFromXML (Output_Text response) = Some (ToolCallInfo_zero, False)
       \<and> HandleChat e g body =
           Some ((200, ChatJSON \<lparr>Reply = Output_Text response, resp_SessionID = SessionID req\<rparr>), g)"
proof -
  have p: "parseToolCallFromXML (Output_Text response) = Some (ToolCallInfo_zero, False)"
    using assms(1) by (simp add: parseToolCallFromXML_def)
  show ?thesis
    using p assms(2,3) by (simp add: HandleChat_def Let_def)
qed

theorem C4_reply_is_response_unchanged_witness:
  "parseToolCallFromXML (Output_Text (text_response ''hello '')) = Some (ToolCallInfo_zero, False)
   \<and> HandleChat (fixed_env [] (text_response ''hello '') ok_response (one_block ''done'')) None
        (Some (plain_request ''hi'' []))
      = Some ((200, ChatJSON \<lparr>Reply = ''hello '', resp_SessionID = ''s1''\<rparr>), None)"
proof -
  have 1: "\<not> Contains (Output_Text (text_response ''hello '')) ''<func_call>''"
    by (simp add: text_response_def)
  have 2: "ShouldBindJSON (Some (plain_request ''hi'' [])) = Inr (plain_request ''hi'' [])"
    by (simp add: ShouldBindJSON_def plain_request_def)
  have 3: "Chat (fixed_env [] (text_response ''hello '') ok_response (one_block ''done''))
             (assemble_messages (plain_request ''hi'' [])
               (case SearchKnowledge (fixed_env [] (text_response ''hello '') ok_response (one_block ''done''))
                       (req_Message (plain_request ''hi'' [])) 3 of
                  Inl err \<Rightarrow> [] | Inr docs \<Rightarrow> docs)) []
           = Inr (text_response ''hello '')"
    by (simp add: fixed_env_def)
  show ?thesis
    using C4_reply_is_response_unchanged [OF 1 2 3, of None]
    by (simp add: text_response_def plain_request_def)
qed

text \<open>
  The reply is not the trimmed text: for the response \<open>hello\<close> followed by a blank the
  reply keeps the blank, while the trimmed text does not have it.
\<close>

theorem C4_counterexample:
  "\<not> Contains ''hello '' ''<func_call>''
   \<and> HandleChat (fixed_env [] (text_response ''hello '') ok_response (one_block ''done'')) None
        (Some (plain_request ''hi'' []))
      = Some ((200, ChatJSON \<lparr>Reply = ''hello '', resp_SessionID = ''s1''\<rparr>), None)
   \<and> TrimSpace ''hello '' = ''hello''
   \<and> ''hello '' \<noteq> TrimSpace ''hello ''"
proof -
  have t: "TrimSpace ''hello '' = ''hello''"
    by code_simp
  have h: "HandleChat (fixed_env [] (text_response ''hello '') ok_response (one_block ''done'')) None
        (Some (plain_request ''hi'' []))
      = Some ((200, ChatJSON \<lparr>Reply = ''hello '', resp_SessionID = ''s1''\<rparr>), None)"
    by (simp add: HandleChat_def ShouldBindJSON_def plain_request_def fixed_env_def
        text_response_def parseToolCallFromXML_def Let_def)
  show ?thesis
    using t h by simp
qed

section \<open>The assembled message list\<close>

lemma FormatContext_loop_eq:
  "FormatContext_loop i docs ctx =
     ctx @ concat (map (\<lambda>(j, d). context_entry (Suc j) d) (enumerate i docs))"
proof (induction docs arbitrary: i ctx)
  case Nil
  then show ?case by simp
next
  case (Cons doc docs)
  have step: "(let context1 = ctx @ Itoa (int i + 1) @ ''. '' @ doc_Text doc @ [CHR 0x0A] in
        case map_of (Metadata doc) ''category'' of
          Some (MetaString category) \<Rightarrow> context1 @ category_label @ category @ [CHR 0x0A]
        | _ \<Rightarrow> context1) = ctx @ context_entry (Suc i) doc"
    by (simp add: context_entry_def add.commute split: option.split meta_value.split)
  show ?case
    by (simp only: FormatContext_loop.simps step Cons.IH enumerate_simps list.map concat.simps
        prod.case append_assoc Suc_eq_plus1)
qed

lemma FormatContext_eq:
  "docs \<noteq> [] \<Longrightarrow>
     FormatContext docs =
       context_header @ concat (map (\<lambda>(j, d). context_entry (Suc j) d) (enumerate 0 docs))"
  by (simp add: FormatContext_def FormatContext_loop_eq)

lemma append_history_eq:
  "append_history msg hist messages =
     messages @ map history_message (filter (\<lambda>h. \<not> echoes msg h) hist)"
  by (induction hist arbitrary: messages) (auto simp: history_message_def echoes_def)

lemma assemble_messages_eq:
  "assemble_messages req docs =
     [\<lparr>Role = ''system'', Content = system_preamble\<rparr>]
     @ (if docs \<noteq> [] then [\<lparr>Role = ''system'', Content = FormatContext docs\<rparr>] else [])
     @ map history_message (filter (\<lambda>h. \<not> echoes (req_Message req) h) (History req))
     @ [\<lparr>Role = ''user'', Content = req_Message req\<rparr>]"
  by (cases "History req") (simp_all add: assemble_messages_def append_history_eq Let_def)

text \<open>
  C5. The message list sent to the model is, in this order: the fixed system preamble; if and
  only if documents were retrieved, one system message holding the header and the
  enumerated list of the documents (number, text, category); the history entries in the
  order the client sent them (those that echo the current message left out); and last the
  current message with the role \<open>user\<close>.
\<close>

theorem C5_message_list_order:
  "assemble_messages req docs =
     [\<lparr>Role = ''system'', Content = system_preamble\<rparr>]
     @ (if docs \<noteq> []
        then [\<lparr>Role = ''system'',
               Content = context_header
                 @ concat (map (\<lambda>(j, d). context_entry (Suc j) d) (enumerate 0 docs))\<rparr>]
        else [])
     @ map history_message (filter (\<lambda>h. \<not> echoes (req_Message req) h) (History req))
     @ [\<lparr>Role = ''user'', Content = req_Message req\<rparr>]"
  by (simp add: assemble_messages_eq FormatContext_eq)

theorem C5_message_list_order_witness:
  "assemble_messages
     (plain_request ''hi'' [\<lparr>hist_Role = ''assistant'', hist_Content = ''welcome''\<rparr>,
                            \<lparr>hist_Role = ''user'', hist_Content = ''hi''\<rparr>])
     [faq_document, faq_document]
   = [\<lparr>Role = ''system'', Content = system_preamble\<rparr>,
      \<lparr>Role = ''system'',
        Content = context_header @ ''1. Returns within 7 days'' @ [CHR 0x0A] @ category_label
                  @ ''after-sales'' @ [CHR 0x0A] @ ''2. Returns within 7 days'' @ [CHR 0x0A]
                  @ category_label @ ''after-sales'' @ [CHR 0x0A]\<rparr>,
      \<lparr>Role = ''assistant'', Content = ''welcome''\<rparr>,
      \<lparr>Role = ''user'', Content = ''hi''\<rparr>]
   \<and> assemble_messages (plain_request ''hi'' []) []
   = [\<lparr>Role = ''system'', Content = system_preamble\<rparr>, \<lparr>Role = ''user'', Content = ''hi''\<rparr>]"
proof -
  have e: "context_entry (Suc 0) faq_document
             = ''1. Returns within 7 days'' @ [CHR 0x0A] @ category_label @ ''after-sales'' @ [CHR 0x0A]"
          "context_entry (Suc (Suc 0)) faq_document
             = ''2. Returns within 7 days'' @ [CHR 0x0A] @ category_label @ ''after-sales'' @ [CHR 0x0A]"
    by code_simp+
  have n: "enumerate 0 [faq_document, faq_document] = [(0, faq_document), (1, faq_document)]"
    by (simp add: enumerate_eq_zip upt_rec)
  show ?thesis
    using C5_message_list_order [of "plain_request ''hi'' [\<lparr>hist_Role = ''assistant'', hist_Content = ''welcome''\<rparr>,
                            \<lparr>hist_Role = ''user'', hist_Content = ''hi''\<rparr>]" "[faq_document, faq_document]"]
      C5_message_list_order [of "plain_request ''hi'' []" "[]"]
    by (simp add: plain_request_def echoes_def history_message_def e n)
qed

text \<open>
  C6. When the history holds an entry of the user whose content is the current message, the
  assembled list holds exactly one message with the role \<open>user\<close> and that content, and it is
  the last one. Between the system messages and that last message stand the history
  entries that do not echo the current message, in the client's order; an entry with the
  same content and another role is among them.
\<close>

theorem C6_history_deduplicated:
  assumes "\<exists>h \<in> set (History req). hist_Role h = ''user'' \<and> hist_Content h = req_Message req"
  shows "length (filter (\<lambda>m. Role m = ''user'' \<and> Content m = req_Message req)
                  (assemble_messages req docs)) = 1
       \<and> last (assemble_messages req docs) = \<lparr>Role = ''user'', Content = req_Message req\<rparr>
       \<and> drop (if docs \<noteq> [] then 2 else 1) (butlast (assemble_messages req docs))
           = map history_message (filter (\<lambda>h. \<not> echoes (req_Message req) h) (History req))
       \<and> (\<forall>h \<in> set (History req). hist_Content h = req_Message req \<and> hist_Role h \<noteq> ''user''
             \<longrightarrow> history_message h \<in> set (assemble_messages req docs))"
proof -
  let ?msg = "req_Message req"
  let ?kept = "map history_message (filter (\<lambda>h. \<not> echoes ?msg h) (History req))"
  have none: "filter (\<lambda>m. Role m = ''user'' \<and> Content m = ?msg) ?kept = []"
    by (auto simp: filter_empty_conv history_message_def echoes_def)
  have 1: "length (filter (\<lambda>m. Role m = ''user'' \<and> Content m = ?msg) (assemble_messages req docs)) = 1"
    by (simp add: assemble_messages_eq none)
  have 2: "last (assemble_messages req docs) = \<lparr>Role = ''user'', Content = ?msg\<rparr>"
    by (simp add: assemble_messages_eq)
  have 3: "drop (if docs \<noteq> [] then 2 else 1) (butlast (assemble_messages req docs)) = ?kept"
    by (simp add: assemble_messages_eq butlast_append)
  have 4: "\<forall>h \<in> set (History req). hist_Content h = ?msg \<and> hist_Role h \<noteq> ''user''
             \<longrightarrow> history_message h \<in> set (assemble_messages req docs)"
    by (auto simp: assemble_messages_eq echoes_def)
  from 1 2 3 4 show ?thesis by blast
qed

theorem C6_history_deduplicated_witness:
  "length (filter (\<lambda>m. Role m = ''user'' \<and> Content m = ''hi'')
      (assemble_messages
         (plain_request ''hi'' [\<lparr>hist_Role = ''assistant'', hist_Content = ''hi''\<rparr>,
                                \<lparr>hist_Role = ''user'', hist_Content = ''hi''\<rparr>]) [])) = 1
   \<and> last (assemble_messages
         (plain_request ''hi'' [\<lparr>hist_Role = ''assistant'', hist_Content = ''hi''\<rparr>,
                                \<lparr>hist_Role = ''user'', hist_Content = ''hi''\<rparr>]) [])
       = \<lparr>Role = ''user'', Content = ''hi''\<rparr>
   \<and> \<lparr>Role = ''assistant'', Content = ''hi''\<rparr>
       \<in> set (assemble_messages
         (plain_request ''hi'' [\<lparr>hist_Role = ''assistant'', hist_Content = ''hi''\<rparr>,
                                \<lparr>hist_Role = ''user'', hist_Content = ''hi''\<rparr>]) [])"
proof -
  let ?req = "plain_request ''hi'' [\<lparr>hist_Role = ''assistant'', hist_Content = ''hi''\<rparr>,
                                \<lparr>hist_Role = ''user'', hist_Content = ''hi''\<rparr>]"
  have h: "\<exists>h \<in> set (History ?req). hist_Role h = ''user'' \<and> hist_Content h = req_Message ?req"
    by (simp add: plain_request_def)
  have m: "req_Message ?req = ''hi''"
    by (simp add: plain_request_def)
  have a: "\<lparr>hist_Role = ''assistant'', hist_Content = ''hi''\<rparr> \<in> set (History ?req)"
    by (simp add: plain_request_def)
  from C6_history_deduplicated [OF h, of "[]"] m a
  show ?thesis
    by (auto simp: history_message_def)
qed

section \<open>The reply after a tool call\<close>

lemma headless_markers:
  "headless ''<func_call>''" "headless ''</func_call>''"
  "headless ''<tool_name>''" "headless ''</tool_name>''"
  "headless ''<arguments>''" "headless ''</arguments>''"
  by (simp_all add: headless_def)

lemma ReplaceAll_first_block:
  assumes "\<not> Contains pre ''<func_call>''" "\<not> Contains body ''</func_call>''"
  shows "funcCallRegex_ReplaceAll_empty (pre @ ''<func_call>'' @ body @ ''</func_call>'' @ post)
           = pre @ funcCallRegex_ReplaceAll_empty post"
proof -
  have "leftmost (any_block_at ''<func_call>'' ''</func_call>'')
          (pre @ ''<func_call>'' @ body @ ''</func_call>'' @ post) = Some (pre, body, post)"
    by (rule leftmost_any_block_first [OF headless_markers(1) assms(1) headless_markers(2) assms(2)])
  then show ?thesis
    by (subst funcCallRegex_ReplaceAll_empty.simps) simp
qed

lemma ReplaceAll_no_block:
  assumes "\<not> Contains s ''<func_call>''"
  shows "funcCallRegex_ReplaceAll_empty s = s"
proof -
  have "leftmost (any_block_at ''<func_call>'' ''</func_call>'') s = None"
    using assms by (simp add: leftmost_any_block_None)
  then show ?thesis
    by (subst funcCallRegex_ReplaceAll_empty.simps) simp
qed

text \<open>
  C7. Let the response text be \<open>pre\<close>, a \<open>func_call\<close> block, \<open>post\<close>, where the block is the first
  one (no opening marker in \<open>pre\<close>, no closing marker inside the block). When the extractor
  finds a directive in it and the tool call returns a result, the endpoint answers with
  status 200 and the reply is the response with the block removed and the surrounding
  white space trimmed, then an empty line, then the tool result; when nothing but white
  space is left, the reply is the tool result alone. Every further complete block in
  \<open>post\<close> is removed as well; where \<open>post\<close> has no opening marker it is kept as it is.
\<close>

theorem C7_reply_after_tool_call:
  assumes "ShouldBindJSON body = Inr req"
    and "Chat e (assemble_messages req
            (case SearchKnowledge e (req_Message req) 3 of Inl err \<Rightarrow> [] | Inr docs \<Rightarrow> docs)) []
          = Inr response"
    and "Output_Text response = pre @ ''<func_call>'' @ block @ ''</func_call>'' @ post"
    and "\<not> Contains pre ''<func_call>''" and "\<not> Contains block ''</func_call>''"
    and "parseToolCallFromXML (Output_Text response) = Some (toolCall, True)"
    and "Execute e g (ToolName toolCall) (Arguments toolCall) = (Inr result, g1)"
  shows "HandleChat e g body =
           Some ((200, ChatJSON
                   \<lparr>Reply = (if TrimSpace (pre @ funcCallRegex_ReplaceAll_empty post) = [] then result
                             else TrimSpace (pre @ funcCallRegex_ReplaceAll_empty post)
                                  @ [CHR 0x0A, CHR 0x0A] @ result),
                    resp_SessionID = SessionID req\<rparr>), g1)
       \<and> (\<not> Contains post ''<func_call>'' \<longrightarrow> funcCallRegex_ReplaceAll_empty post = post)"
proof -
  have r: "funcCallRegex_ReplaceAll_empty (Output_Text response)
             = pre @ funcCallRegex_ReplaceAll_empty post"
    unfolding assms(3) by (rule ReplaceAll_first_block [OF assms(4,5)])
  have "HandleChat e g body =
          Some ((200, ChatJSON \<lparr>Reply = buildFinalReply (Output_Text response) result,
                                 resp_SessionID = SessionID req\<rparr>), g1)"
    using assms(1,2,6,7) by (simp add: HandleChat_def Let_def)
  then show ?thesis
    by (simp add: buildFinalReply_def r Let_def ReplaceAll_no_block)
qed

theorem C7_reply_after_tool_call_witness:
  "HandleChat (fixed_env [] (text_response order_reply) ok_response (one_block ''Order shipped''))
     (Some fresh_client) (Some (plain_request ''where is my order'' []))
   = Some ((200, ChatJSON \<lparr>Reply = ''Sure.'' @ [CHR 0x0A, CHR 0x0A] @ ''Order shipped'',
                            resp_SessionID = ''s1''\<rparr>),
           Some \<lparr>msgID = 3, mu = False, written = [''request 3'' @ [CHR 0x0A]]\<rparr>)"
proof -
  let ?e = "fixed_env [] (text_response order_reply) ok_response (one_block ''Order shipped'')"
  let ?req = "plain_request ''where is my order'' []"
  let ?tc = "\<lparr>ToolName = ''query_order'', Arguments = ''{}''\<rparr>"
  have 1: "ShouldBindJSON (Some ?req) = Inr ?req"
    by (simp add: ShouldBindJSON_def plain_request_def)
  have 2: "Chat ?e (assemble_messages ?req
            (case SearchKnowledge ?e (req_Message ?req) 3 of Inl err \<Rightarrow> [] | Inr docs \<Rightarrow> docs)) []
          = Inr (text_response order_reply)"
    by (simp add: fixed_env_def)
  have 3: "Output_Text (text_response order_reply)
            = ''Sure. '' @ ''<func_call>'' @ ''<tool_name>query_order</tool_name><arguments></arguments>''
              @ ''</func_call>'' @ '' ''"
    by (simp add: text_response_def order_reply_def)
  have 4: "\<not> Contains ''Sure. '' ''<func_call>''"
    by simp
  have 5: "\<not> Contains ''<tool_name>query_order</tool_name><arguments></arguments>'' ''</func_call>''"
    by simp
  have 6: "parseToolCallFromXML (Output_Text (text_response order_reply)) = Some (?tc, True)"
    by code_simp
  have 7: "Execute ?e (Some fresh_client) (ToolName ?tc) (Arguments ?tc)
            = (Inr ''Order shipped'', Some \<lparr>msgID = 3, mu = False, written = [''request 3'' @ [CHR 0x0A]]\<rparr>)"
    by code_simp
  have 8: "TrimSpace (''Sure. '' @ funcCallRegex_ReplaceAll_empty '' '') = ''Sure.''"
    by code_simp
  show ?thesis
    using C7_reply_after_tool_call [OF 1 2 3 4 5 6 7] 8
    by (simp add: plain_request_def)
qed

section \<open>Failures of the tool gateway\<close>

lemma CallTool_eq:
  "CallTool e c toolName arguments =
     (case sendRequest e (snd (nextID c)) (tool_call_request c toolName arguments) of
        (Inl err, c2) \<Rightarrow> (Inl err, c2)
      | (Inr resp, c2) \<Rightarrow>
          (case Error resp of
             Some er \<Rightarrow> (Inl (msg_tool_call_failed @ err_Message er), c2)
           | None \<Rightarrow>
               (case json_Unmarshal_result e (Result resp) of
                  Inl err \<Rightarrow> (Inl (msg_parse_result_failed @ err), c2)
                | Inr toolResult \<Rightarrow>
                    if length (result_Content toolResult) > 0
                    then (Inr (block_Text (result_Content toolResult ! 0)), c2)
                    else (Inl msg_empty_result, c2))))"
  by (simp add: CallTool_def tool_call_request_def split_beta Let_def)

lemma HandleChat_tool_failure:
  assumes "ShouldBindJSON body = Inr req"
    and "Chat e (assemble_messages req
            (case SearchKnowledge e (req_Message req) 3 of Inl err \<Rightarrow> [] | Inr docs \<Rightarrow> docs)) []
          = Inr response"
    and "parseToolCallFromXML (Output_Text response) = Some (toolCall, True)"
    and "Execute e g (ToolName toolCall) (Arguments toolCall) = (Inl err, g1)"
  shows "HandleChat e g body =
           Some ((200, ChatJSON \<lparr>Reply = msg_order_failed @ err, resp_SessionID = SessionID req\<rparr>), g1)"
  using assms by (simp add: HandleChat_def Let_def)

text \<open>
  C8. Let the exchange with the sidecar succeed and return the response \<open>resp\<close>. If \<open>resp\<close>
  carries an error object, \<open>CallTool\<close> returns an error holding the peer's message; if it
  carries none and its result has no content block, \<open>CallTool\<close> returns the error of the
  empty result; if the result has a first block, \<open>CallTool\<close> returns that block's text.
  And whenever the tool call that the endpoint dispatched for a directive returns an error,
  the endpoint answers with status 200 and a reply made of the failure text followed by the
  error's message.
\<close>

theorem C8_gateway_errors_surface:
  assumes "sendRequest e (snd (nextID c)) (tool_call_request c toolName arguments) = (Inr resp, c2)"
  shows "(\<forall>er. Error resp = Some er \<longrightarrow>
            CallTool e c toolName arguments = (Inl (msg_tool_call_failed @ err_Message er), c2))
       \<and> (\<forall>tr. Error resp = None \<and> json_Unmarshal_result e (Result resp) = Inr tr
                \<and> result_Content tr = [] \<longrightarrow>
            CallTool e c toolName arguments = (Inl msg_empty_result, c2))
       \<and> (\<forall>tr b bs. Error resp = None \<and> json_Unmarshal_result e (Result resp) = Inr tr
                \<and> result_Content tr = b # bs \<longrightarrow>
            CallTool e c toolName arguments = (Inr (block_Text b), c2))
       \<and> (\<forall>err. fst (CallTool e c toolName arguments) = Inl err
                \<and> json_Unmarshal_args e argsJSON = Inr arguments \<longrightarrow>
            Execute e (Some c) toolName argsJSON = (Inl (msg_tool_call_failed @ err), Some c2))
       \<and> (\<forall>body req response err g g1.
            ShouldBindJSON body = Inr req
            \<and> Chat e (assemble_messages req
                 (case SearchKnowledge e (req_Message req) 3 of Inl err \<Rightarrow> [] | Inr docs \<Rightarrow> docs)) []
               = Inr response
            \<and> parseToolCallFromXML (Output_Text response)
               = Some (\<lparr>ToolName = toolName, Arguments = argsJSON\<rparr>, True)
            \<and> Execute e g toolName argsJSON = (Inl err, g1) \<longrightarrow>
            HandleChat e g body =
              Some ((200, ChatJSON \<lparr>Reply = msg_order_failed @ err,
                                     resp_SessionID = SessionID req\<rparr>), g1))"
proof -
  have snd_c2: "snd (CallTool e c toolName arguments) = c2"
    using assms by (simp add: CallTool_eq split: option.split sum.split)
  have a: "\<forall>er. Error resp = Some er \<longrightarrow>
            CallTool e c toolName arguments = (Inl (msg_tool_call_failed @ err_Message er), c2)"
    using assms by (simp add: CallTool_eq)
  have b: "\<forall>tr. Error resp = None \<and> json_Unmarshal_result e (Result resp) = Inr tr
                \<and> result_Content tr = [] \<longrightarrow>
            CallTool e c toolName arguments = (Inl msg_empty_result, c2)"
    using assms by (simp add: CallTool_eq)
  have c: "\<forall>tr b bs. Error resp = None \<and> json_Unmarshal_result e (Result resp) = Inr tr
                \<and> result_Content tr = b # bs \<longrightarrow>
            CallTool e c toolName arguments = (Inr (block_Text b), c2)"
    using assms by (simp add: CallTool_eq)
  have d: "\<forall>err. fst (CallTool e c toolName arguments) = Inl err
                \<and> json_Unmarshal_args e argsJSON = Inr arguments \<longrightarrow>
            Execute e (Some c) toolName argsJSON = (Inl (msg_tool_call_failed @ err), Some c2)"
  proof (intro allI impI)
    fix err
    assume h: "fst (CallTool e c toolName arguments) = Inl err
                \<and> json_Unmarshal_args e argsJSON = Inr arguments"
    then have "CallTool e c toolName arguments = (Inl err, c2)"
      using snd_c2 by (metis prod.collapse)
    with h show "Execute e (Some c) toolName argsJSON = (Inl (msg_tool_call_failed @ err), Some c2)"
      by (simp add: Execute_def)
  qed
  have f: "\<forall>body req response err g g1.
            ShouldBindJSON body = Inr req
            \<and> Chat e (assemble_messages req
                 (case SearchKnowledge e (req_Message req) 3 of Inl err \<Rightarrow> [] | Inr docs \<Rightarrow> docs)) []
               = Inr response
            \<and> parseToolCallFromXML (Output_Text response)
               = Some (\<lparr>ToolName = toolName, Arguments = argsJSON\<rparr>, True)
            \<and> Execute e g toolName argsJSON = (Inl err, g1) \<longrightarrow>
            HandleChat e g body =
              Some ((200, ChatJSON \<lparr>Reply = msg_order_failed @ err,
                                     resp_SessionID = SessionID req\<rparr>), g1)"
    by (intro allI impI) (rule HandleChat_tool_failure, auto)
  from a b c d f show ?thesis by blast
qed

theorem C8_gateway_errors_surface_witness:
  "CallTool (fixed_env [] (text_response order_reply) error_response (one_block ''unused'')) fresh_client
      ''query_order'' []
    = (Inl (msg_tool_call_failed @ ''out of stock''),
       \<lparr>msgID = 3, mu = False, written = [''request 3'' @ [CHR 0x0A]]\<rparr>)
   \<and> HandleChat (fixed_env [] (text_response order_reply) error_response (one_block ''unused''))
        (Some fresh_client) (Some (plain_request ''where is my order'' []))
    = Some ((200, ChatJSON \<lparr>Reply = msg_order_failed @ msg_tool_call_failed @ msg_tool_call_failed
                                      @ ''out of stock'',
                             resp_SessionID = ''s1''\<rparr>),
            Some \<lparr>msgID = 3, mu = False, written = [''request 3'' @ [CHR 0x0A]]\<rparr>)
   \<and> CallTool (fixed_env [] (text_response order_reply) ok_response \<lparr>result_Content = []\<rparr>) fresh_client
      ''query_order'' []
    = (Inl msg_empty_result, \<lparr>msgID = 3, mu = False, written = [''request 3'' @ [CHR 0x0A]]\<rparr>)
   \<and> CallTool (fixed_env [] (text_response order_reply) ok_response (one_block ''Order shipped''))
      fresh_client ''query_order'' []
    = (Inr ''Order shipped'', \<lparr>msgID = 3, mu = False, written = [''request 3'' @ [CHR 0x0A]]\<rparr>)"
proof -
  let ?c2 = "\<lparr>msgID = 3, mu = False, written = [''request 3'' @ [CHR 0x0A]]\<rparr>"
  let ?e1 = "fixed_env [] (text_response order_reply) error_response (one_block ''unused'')"
  let ?e2 = "fixed_env [] (text_response order_reply) ok_response \<lparr>result_Content = []\<rparr>"
  let ?e3 = "fixed_env [] (text_response order_reply) ok_response (one_block ''Order shipped'')"
  let ?req = "plain_request ''where is my order'' []"
  have s1: "sendRequest ?e1 (snd (nextID fresh_client)) (tool_call_request fresh_client ''query_order'' [])
              = (Inr error_response, ?c2)"
    by code_simp
  have s2: "sendRequest ?e2 (snd (nextID fresh_client)) (tool_call_request fresh_client ''query_order'' [])
              = (Inr ok_response, ?c2)"
    by code_simp
  have s3: "sendRequest ?e3 (snd (nextID fresh_client)) (tool_call_request fresh_client ''query_order'' [])
              = (Inr ok_response, ?c2)"
    by code_simp
  note t1 = C8_gateway_errors_surface [OF s1, of "''{}''"]
  note t2 = C8_gateway_errors_surface [OF s2, of "''{}''"]
  note t3 = C8_gateway_errors_surface [OF s3, of "''{}''"]
  have er: "Error error_response = Some \<lparr>err_Code = - 32000, err_Message = ''out of stock''\<rparr>"
    by (simp add: error_response_def)
  have call1: "CallTool ?e1 fresh_client ''query_order'' []
                = (Inl (msg_tool_call_failed @ ''out of stock''), ?c2)"
    using t1 er by simp
  have ua: "json_Unmarshal_args ?e1 ''{}'' = Inr []"
    by (simp add: fixed_env_def)
  have ex1: "Execute ?e1 (Some fresh_client) ''query_order'' ''{}''
               = (Inl (msg_tool_call_failed @ msg_tool_call_failed @ ''out of stock''), Some ?c2)"
    using t1 call1 ua by simp
  have b1: "ShouldBindJSON (Some ?req) = Inr ?req"
    by (simp add: ShouldBindJSON_def plain_request_def)
  have b2: "Chat ?e1 (assemble_messages ?req
            (case SearchKnowledge ?e1 (req_Message ?req) 3 of Inl err \<Rightarrow> [] | Inr docs \<Rightarrow> docs)) []
          = Inr (text_response order_reply)"
    by (simp add: fixed_env_def)
  have b3: "parseToolCallFromXML (Output_Text (text_response order_reply))
              = Some (\<lparr>ToolName = ''query_order'', Arguments = ''{}''\<rparr>, True)"
    by code_simp
  have h1: "HandleChat ?e1 (Some fresh_client) (Some ?req)
    = Some ((200, ChatJSON \<lparr>Reply = msg_order_failed @ msg_tool_call_failed @ msg_tool_call_failed
                                      @ ''out of stock'',
                             resp_SessionID = SessionID ?req\<rparr>), Some ?c2)"
    using t1 b1 b2 b3 ex1 by blast
  have call2: "CallTool ?e2 fresh_client ''query_order'' [] = (Inl msg_empty_result, ?c2)"
    using t2 by (simp add: ok_response_def fixed_env_def)
  have call3: "CallTool ?e3 fresh_client ''query_order'' [] = (Inr ''Order shipped'', ?c2)"
    using t3 by (simp add: ok_response_def fixed_env_def one_block_def)
  from call1 h1 call2 call3 show ?thesis
    by (simp add: plain_request_def)
qed

section \<open>Facts about the extractor\<close>

lemma go_index_in_range: "i < length xs \<Longrightarrow> go_index xs i = Some (xs ! i)"
  by (simp add: go_index_def)

lemma collect_args_Some: "\<exists>args'. collect_args ms args = Some args'"
proof (induction ms arbitrary: args)
  case Nil
  then show ?case by simp
next
  case (Cons match ms)
  show ?case
  proof (cases "4 \<le> length match")
    case True
    then show ?thesis
      using Cons.IH by (simp add: go_index_in_range Let_def split: option.split)
  next
    case False
    then show ?thesis using Cons.IH by simp
  qed
qed

lemma submatch_index:
  "length (submatch opn cls r) < 2 \<longleftrightarrow> r = None"
  "go_index (submatch opn cls (Some (pre, body, post))) (Suc 0) = Some body"
  by (auto simp: submatch_def go_index_def split: option.split)

text \<open>The extractor without its slices: what it returns in terms of the three matches.\<close>

lemma parseToolCallFromXML_eq:
  "parseToolCallFromXML response =
     (if \<not> Contains response ''<func_call>'' then Some (ToolCallInfo_zero, False)
      else case leftmost (any_block_at ''<func_call>'' ''</func_call>'') response of
        None \<Rightarrow> Some (ToolCallInfo_zero, False)
      | Some (pre, funcCallContent, post) \<Rightarrow>
          (case leftmost (dot_block_at ''<tool_name>'' ''</tool_name>'') funcCallContent of
             None \<Rightarrow> Some (ToolCallInfo_zero, False)
           | Some (pre1, name, post1) \<Rightarrow>
               (case leftmost (any_block_at ''<arguments>'' ''</arguments>'') funcCallContent of
                  None \<Rightarrow> Some (ToolCallInfo_zero, False)
                | Some (pre2, argsContent, post2) \<Rightarrow>
                    (case collect_args (tagRegex_FindAllStringSubmatch argsContent) [] of
                       None \<Rightarrow> None
                     | Some args \<Rightarrow>
                         (case json_Marshal args of
                            Inl err \<Rightarrow> Some (ToolCallInfo_zero, False)
                          | Inr argsJSON \<Rightarrow>
                              Some (\<lparr>ToolName = TrimSpace name, Arguments = argsJSON\<rparr>, True))))))"
  by (auto simp: parseToolCallFromXML_def funcCallRegex_FindStringSubmatch_def
      toolNameRegex_FindStringSubmatch_def argsRegex_FindStringSubmatch_def submatch_index Let_def
      split: option.split sum.split)

lemma parseToolCallFromXML_total:
  "\<exists>info found. parseToolCallFromXML response = Some (info, found)"
proof -
  have "\<And>s. \<exists>args. collect_args (tagRegex_FindAllStringSubmatch s) [] = Some args"
    by (rule collect_args_Some)
  then show ?thesis
    unfolding parseToolCallFromXML_eq
    by (auto split: option.split sum.split) (metis option.distinct(1))+
qed

lemma parseToolCallFromXML_block:
  assumes "\<not> Contains pre ''<func_call>''" "\<not> Contains block ''</func_call>''"
  shows "parseToolCallFromXML (pre @ ''<func_call>'' @ block @ ''</func_call>'' @ post) =
     (case leftmost (dot_block_at ''<tool_name>'' ''</tool_name>'') block of
             None \<Rightarrow> Some (ToolCallInfo_zero, False)
           | Some (pre1, name, post1) \<Rightarrow>
               (case leftmost (any_block_at ''<arguments>'' ''</arguments>'') block of
                  None \<Rightarrow> Some (ToolCallInfo_zero, False)
                | Some (pre2, argsContent, post2) \<Rightarrow>
                    (case collect_args (tagRegex_FindAllStringSubmatch argsContent) [] of
                       None \<Rightarrow> None
                     | Some args \<Rightarrow>
                         (case json_Marshal args of
                            Inl err \<Rightarrow> Some (ToolCallInfo_zero, False)
                          | Inr argsJSON \<Rightarrow>
                              Some (\<lparr>ToolName = TrimSpace name, Arguments = argsJSON\<rparr>, True)))))"
proof -
  let ?r = "pre @ ''<func_call>'' @ block @ ''</func_call>'' @ post"
  have c: "Contains ?r ''<func_call>''"
    unfolding Contains_iff by blast
  have l: "leftmost (any_block_at ''<func_call>'' ''</func_call>'') ?r = Some (pre, block, post)"
    by (rule leftmost_any_block_first [OF headless_markers(1) assms(1) headless_markers(2) assms(2)])
  show ?thesis
    by (subst parseToolCallFromXML_eq) (simp only: c l not_True_eq_False if_False option.case prod.case)
qed

lemma collect_args_Cons:
  "collect_args (match # ms) args =
     (if 4 \<le> length match \<and> match ! 1 = match ! 3
      then collect_args ms
             (AList.update (match ! 1) (typed_value (match ! 1) (TrimSpace (match ! 2))) args)
      else collect_args ms args)"
  by (simp add: go_index_in_range Let_def typed_value_def split: option.split)

lemma collect_args_skip_mismatch:
  "collect_args ms args = collect_args (filter (\<lambda>m. \<not> (4 \<le> length m \<and> m ! 1 \<noteq> m ! 3)) ms) args"
proof (induction ms arbitrary: args)
  case Nil
  then show ?case by simp
next
  case (Cons match ms)
  show ?case
  proof (cases "4 \<le> length match \<and> match ! 1 \<noteq> match ! 3")
    case True
    then have "collect_args (match # ms) args = collect_args ms args"
      by (simp only: collect_args_Cons) simp
    with True Cons.IH show ?thesis by simp
  next
    case False
    then have "filter (\<lambda>m. \<not> (4 \<le> length m \<and> m ! 1 \<noteq> m ! 3)) (match # ms)
                 = match # filter (\<lambda>m. \<not> (4 \<le> length m \<and> m ! 1 \<noteq> m ! 3)) ms"
      by simp
    then show ?thesis
      using Cons.IH by (simp only: collect_args_Cons)
  qed
qed

lemma collect_args_no_match:
  "\<forall>m \<in> set ms. 4 \<le> length m \<longrightarrow> m ! 1 \<noteq> m ! 3 \<Longrightarrow> collect_args ms args = Some args"
proof (induction ms arbitrary: args)
  case Nil
  then show ?case by simp
next
  case (Cons match ms)
  then have "\<not> (4 \<le> length match \<and> match ! 1 = match ! 3)" by simp
  then have "collect_args (match # ms) args = collect_args ms args"
    by (simp only: collect_args_Cons if_False)
  with Cons show ?case by simp
qed

lemma collect_args_dom:
  "collect_args ms args = Some args' \<Longrightarrow> k \<in> dom (map_of args') \<Longrightarrow>
     k \<in> dom (map_of args) \<or> (\<exists>m \<in> set ms. 4 \<le> length m \<and> m ! 1 = k \<and> m ! 3 = k)"
proof (induction ms arbitrary: args)
  case Nil
  then show ?case by simp
next
  case (Cons match ms)
  show ?case
  proof (cases "4 \<le> length match \<and> match ! 1 = match ! 3")
    case False
    with Cons.prems(1) have "collect_args ms args = Some args'"
      by (simp only: collect_args_Cons if_False)
    from Cons.IH [OF this Cons.prems(2)] show ?thesis by auto
  next
    case True
    then have "collect_args (match # ms) args = collect_args ms
            (AList.update (match ! 1) (typed_value (match ! 1) (TrimSpace (match ! 2))) args)"
      by (subst collect_args_Cons) simp
    with Cons.prems(1)
    have "collect_args ms
            (AList.update (match ! 1) (typed_value (match ! 1) (TrimSpace (match ! 2))) args)
          = Some args'"
      by simp
    from Cons.IH [OF this Cons.prems(2)] True show ?thesis
      by (auto simp: update_conv' split: if_splits)
  qed
qed

lemma json_Marshal_empty: "json_Marshal [] = Inr ''{}''"
  by (simp add: json_Marshal_def json_object_def sort_entries_def)

lemma tool_name_found:
  assumes "block = b1 @ ''<tool_name>'' @ name @ ''</tool_name>'' @ b2"
    and "\<not> Contains b1 ''<tool_name>''" "\<not> Contains name ''</tool_name>''" "CHR 0x0A \<notin> set name"
  shows "leftmost (dot_block_at ''<tool_name>'' ''</tool_name>'') block = Some (b1, name, b2)"
  unfolding assms(1)
  by (rule leftmost_dot_block_first [OF headless_markers(3) assms(2) headless_markers(4) assms(3,4)])

lemma arguments_found:
  assumes "block = a1 @ ''<arguments>'' @ argsContent @ ''</arguments>'' @ a2"
    and "\<not> Contains a1 ''<arguments>''" "\<not> Contains argsContent ''</arguments>''"
  shows "leftmost (any_block_at ''<arguments>'' ''</arguments>'') block = Some (a1, argsContent, a2)"
  unfolding assms(1)
  by (rule leftmost_any_block_first [OF headless_markers(5) assms(2) headless_markers(6) assms(3)])

lemma HandleChat_found:
  assumes "ShouldBindJSON body = Inr req"
    and "Chat e (assemble_messages req
            (case SearchKnowledge e (req_Message req) 3 of Inl err \<Rightarrow> [] | Inr docs \<Rightarrow> docs)) []
          = Inr response"
    and "parseToolCallFromXML (Output_Text response) = Some (toolCall, True)"
  shows "HandleChat e g body =
           (case Execute e g (ToolName toolCall) (Arguments toolCall) of
              (Inl err, g1) \<Rightarrow>
                Some ((200, ChatJSON \<lparr>Reply = msg_order_failed @ err,
                                       resp_SessionID = SessionID req\<rparr>), g1)
            | (Inr result, g1) \<Rightarrow>
                Some ((200, ChatJSON \<lparr>Reply = buildFinalReply (Output_Text response) result,
                                       resp_SessionID = SessionID req\<rparr>), g1))"
  using assms by (simp add: HandleChat_def Let_def)

lemma HandleChat_not_found:
  assumes "ShouldBindJSON body = Inr req"
    and "Chat e (assemble_messages req
            (case SearchKnowledge e (req_Message req) 3 of Inl err \<Rightarrow> [] | Inr docs \<Rightarrow> docs)) []
          = Inr response"
    and "parseToolCallFromXML (Output_Text response) = Some (toolCall, False)"
  shows "HandleChat e g body =
           Some ((200, ChatJSON \<lparr>Reply = Output_Text response, resp_SessionID = SessionID req\<rparr>), g)"
  using assms by (simp add: HandleChat_def Let_def)

section \<open>Malformed directives\<close>

text \<open>
  C2. For every response text the extractor returns a result and does not fail. When the
  first \<open>func_call\<close> block of a response lacks one of the markers \<open><tool_name>\<close>,
  \<open></tool_name>\<close>, \<open><arguments>\<close>, \<open></arguments>\<close>, the extractor reports that no directive was
  found, and the endpoint then replies with the response text. In the loop over the tag
  matches a match whose closing name differs from its opening name changes nothing: the
  mapping is the one built from the other matches alone, and every key of the mapping is
  the name of a match whose two names are equal.
\<close>

theorem C2_malformed_directive_degrades:
  "(\<exists>info found. parseToolCallFromXML response = Some (info, found))
   \<and> (\<forall>pre block post.
        response = pre @ ''<func_call>'' @ block @ ''</func_call>'' @ post
        \<and> \<not> Contains pre ''<func_call>'' \<and> \<not> Contains block ''</func_call>''
        \<and> (\<not> Contains block ''<tool_name>'' \<or> \<not> Contains block ''</tool_name>''
           \<or> \<not> Contains block ''<arguments>'' \<or> \<not> Contains block ''</arguments>'')
        \<longrightarrow> parseToolCallFromXML response = Some (ToolCallInfo_zero, False))
   \<and> (\<forall>e g body req r info.
        ShouldBindJSON body = Inr req
        \<and> Chat e (assemble_messages req
             (case SearchKnowledge e (req_Message req) 3 of Inl err \<Rightarrow> [] | Inr docs \<Rightarrow> docs)) []
           = Inr r
        \<and> Output_Text r = response
        \<and> parseToolCallFromXML response = Some (info, False)
        \<longrightarrow> HandleChat e g body =
              Some ((200, ChatJSON \<lparr>Reply = response, resp_SessionID = SessionID req\<rparr>), g))
   \<and> (\<forall>ms args.
        collect_args ms args
          = collect_args (filter (\<lambda>m. \<not> (4 \<le> length m \<and> m ! 1 \<noteq> m ! 3)) ms) args)
   \<and> (\<forall>argsContent args k.
        collect_args (tagRegex_FindAllStringSubmatch argsContent) [] = Some args
        \<and> k \<in> dom (map_of args)
        \<longrightarrow> (\<exists>m \<in> set (tagRegex_FindAllStringSubmatch argsContent). m ! 1 = k \<and> m ! 3 = k))"
proof -
  have 1: "\<exists>info found. parseToolCallFromXML response = Some (info, found)"
    by (rule parseToolCallFromXML_total)
  have 2: "\<forall>pre block post.
        response = pre @ ''<func_call>'' @ block @ ''</func_call>'' @ post
        \<and> \<not> Contains pre ''<func_call>'' \<and> \<not> Contains block ''</func_call>''
        \<and> (\<not> Contains block ''<tool_name>'' \<or> \<not> Contains block ''</tool_name>''
           \<or> \<not> Contains block ''<arguments>'' \<or> \<not> Contains block ''</arguments>'')
        \<longrightarrow> parseToolCallFromXML response = Some (ToolCallInfo_zero, False)"
  proof (intro allI impI)
    fix pre block post
    assume h: "response = pre @ ''<func_call>'' @ block @ ''</func_call>'' @ post
        \<and> \<not> Contains pre ''<func_call>'' \<and> \<not> Contains block ''</func_call>''
        \<and> (\<not> Contains block ''<tool_name>'' \<or> \<not> Contains block ''</tool_name>''
           \<or> \<not> Contains block ''<arguments>'' \<or> \<not> Contains block ''</arguments>'')"
    then have p: "\<not> Contains pre ''<func_call>''" and b: "\<not> Contains block ''</func_call>''"
      and r: "response = pre @ ''<func_call>'' @ block @ ''</func_call>'' @ post"
      by simp_all
    from h consider "\<not> Contains block ''<tool_name>'' \<or> \<not> Contains block ''</tool_name>''"
      | "\<not> Contains block ''<arguments>'' \<or> \<not> Contains block ''</arguments>''"
      by blast
    then show "parseToolCallFromXML response = Some (ToolCallInfo_zero, False)"
    proof cases
      case 1
      then have "leftmost (dot_block_at ''<tool_name>'' ''</tool_name>'') block = None"
        by (rule leftmost_dot_block_None)
      then show ?thesis
        unfolding r by (subst parseToolCallFromXML_block [OF p b]) simp
    next
      case 2
      then have "leftmost (any_block_at ''<arguments>'' ''</arguments>'') block = None"
        by (rule leftmost_any_block_None)
      then show ?thesis
        unfolding r by (subst parseToolCallFromXML_block [OF p b]) (simp split: option.split)
    qed
  qed
  have 3: "\<forall>e g body req r info.
        ShouldBindJSON body = Inr req
        \<and> Chat e (assemble_messages req
             (case SearchKnowledge e (req_Message req) 3 of Inl err \<Rightarrow> [] | Inr docs \<Rightarrow> docs)) []
           = Inr r
        \<and> Output_Text r = response
        \<and> parseToolCallFromXML response = Some (info, False)
        \<longrightarrow> HandleChat e g body =
              Some ((200, ChatJSON \<lparr>Reply = response, resp_SessionID = SessionID req\<rparr>), g)"
    using HandleChat_not_found by blast
  have 4: "\<forall>ms args.
        collect_args ms args
          = collect_args (filter (\<lambda>m. \<not> (4 \<le> length m \<and> m ! 1 \<noteq> m ! 3)) ms) args"
    using collect_args_skip_mismatch by blast
  have 5: "\<forall>argsContent args k.
        collect_args (tagRegex_FindAllStringSubmatch argsContent) [] = Some args
        \<and> k \<in> dom (map_of args)
        \<longrightarrow> (\<exists>m \<in> set (tagRegex_FindAllStringSubmatch argsContent). m ! 1 = k \<and> m ! 3 = k)"
  proof (intro allI impI)
    fix argsContent args k
    assume "collect_args (tagRegex_FindAllStringSubmatch argsContent) [] = Some args
        \<and> k \<in> dom (map_of args)"
    then show "\<exists>m \<in> set (tagRegex_FindAllStringSubmatch argsContent). m ! 1 = k \<and> m ! 3 = k"
      using collect_args_dom [of "tagRegex_FindAllStringSubmatch argsContent" "[]" args k] by auto
  qed
  from 1 2 3 4 5 show ?thesis by blast
qed

theorem C2_malformed_directive_degrades_witness:
  "parseToolCallFromXML nameless_reply = Some (ToolCallInfo_zero, False)
   \<and> HandleChat (fixed_env [] (text_response nameless_reply) ok_response (one_block ''unused''))
        (Some fresh_client) (Some (plain_request ''hi'' []))
      = Some ((200, ChatJSON \<lparr>Reply = nameless_reply, resp_SessionID = ''s1''\<rparr>), Some fresh_client)
   \<and> collect_args (tagRegex_FindAllStringSubmatch ''<a>1</b><c>2</c>'') [] = Some [(''c'', JInt 2)]"
proof -
  let ?e = "fixed_env [] (text_response nameless_reply) ok_response (one_block ''unused'')"
  let ?req = "plain_request ''hi'' []"
  note t = C2_malformed_directive_degrades [of nameless_reply]
  have d: "nameless_reply = ''One moment. '' @ ''<func_call>'' @ ''<arguments><a>1</a></arguments>''
             @ ''</func_call>'' @ []
           \<and> \<not> Contains ''One moment. '' ''<func_call>''
           \<and> \<not> Contains ''<arguments><a>1</a></arguments>'' ''</func_call>''
           \<and> (\<not> Contains ''<arguments><a>1</a></arguments>'' ''<tool_name>''
              \<or> \<not> Contains ''<arguments><a>1</a></arguments>'' ''</tool_name>''
              \<or> \<not> Contains ''<arguments><a>1</a></arguments>'' ''<arguments>''
              \<or> \<not> Contains ''<arguments><a>1</a></arguments>'' ''</arguments>'')"
    by (simp add: nameless_reply_def)
  have p: "parseToolCallFromXML nameless_reply = Some (ToolCallInfo_zero, False)"
    using t d by blast
  have b: "ShouldBindJSON (Some ?req) = Inr ?req
           \<and> Chat ?e (assemble_messages ?req
                (case SearchKnowledge ?e (req_Message ?req) 3 of Inl err \<Rightarrow> [] | Inr docs \<Rightarrow> docs)) []
              = Inr (text_response nameless_reply)
           \<and> Output_Text (text_response nameless_reply) = nameless_reply"
    by (simp add: ShouldBindJSON_def plain_request_def fixed_env_def text_response_def)
  have h: "HandleChat ?e (Some fresh_client) (Some ?req)
      = Some ((200, ChatJSON \<lparr>Reply = nameless_reply, resp_SessionID = SessionID ?req\<rparr>), Some fresh_client)"
    using t b p by blast
  have f: "tagRegex_FindAllStringSubmatch ''<a>1</b><c>2</c>''
            = [[''<a>1</b>'', ''a'', ''1'', ''b''], [''<c>2</c>'', ''c'', ''2'', ''c'']]"
    by code_simp
  have "collect_args (tagRegex_FindAllStringSubmatch ''<a>1</b><c>2</c>'') []
          = collect_args (filter (\<lambda>m. \<not> (4 \<le> length m \<and> m ! 1 \<noteq> m ! 3))
              (tagRegex_FindAllStringSubmatch ''<a>1</b><c>2</c>'')) []"
    using t by blast
  also have "\<dots> = collect_args [[''<c>2</c>'', ''c'', ''2'', ''c'']] []"
    by (simp add: f)
  also have "\<dots> = Some [(''c'', JInt 2)]"
    by code_simp
  finally have c: "collect_args (tagRegex_FindAllStringSubmatch ''<a>1</b><c>2</c>'') []
                     = Some [(''c'', JInt 2)]" .
  from p h c show ?thesis
    by (simp add: plain_request_def)
qed

section \<open>A directive without arguments\<close>

text \<open>
  C10. Let the first \<open>func_call\<close> block of a response hold a tool-name field (on one line)
  and an arguments block, and let no tag match inside the arguments block have equal
  opening and closing names. Then the extractor reports a directive with the trimmed tool
  name and the argument text \<open>{}\<close>, the JSON of the empty mapping. When the decoder reads
  \<open>{}\<close> as the empty mapping, the endpoint dispatches \<open>CallTool\<close> with that name and no
  arguments, and its reply is the one for that call's outcome.
\<close>

theorem C10_directive_without_arguments:
  assumes "\<not> Contains pre ''<func_call>''" "\<not> Contains block ''</func_call>''"
    and "block = b1 @ ''<tool_name>'' @ name @ ''</tool_name>'' @ b2"
    and "\<not> Contains b1 ''<tool_name>''" "\<not> Contains name ''</tool_name>''" "CHR 0x0A \<notin> set name"
    and "block = a1 @ ''<arguments>'' @ argsContent @ ''</arguments>'' @ a2"
    and "\<not> Contains a1 ''<arguments>''" "\<not> Contains argsContent ''</arguments>''"
    and "\<forall>m \<in> set (tagRegex_FindAllStringSubmatch argsContent). m ! 1 \<noteq> m ! 3"
  shows "parseToolCallFromXML (pre @ ''<func_call>'' @ block @ ''</func_call>'' @ post)
           = Some (\<lparr>ToolName = TrimSpace name, Arguments = ''{}''\<rparr>, True)
       \<and> json_Marshal [] = Inr ''{}''
       \<and> (\<forall>e c body req response.
            ShouldBindJSON body = Inr req
            \<and> Chat e (assemble_messages req
                 (case SearchKnowledge e (req_Message req) 3 of Inl err \<Rightarrow> [] | Inr docs \<Rightarrow> docs)) []
               = Inr response
            \<and> Output_Text response = pre @ ''<func_call>'' @ block @ ''</func_call>'' @ post
            \<and> json_Unmarshal_args e ''{}'' = Inr []
            \<longrightarrow> HandleChat e (Some c) body =
                 (case CallTool e c (TrimSpace name) [] of
                    (Inl err, c1) \<Rightarrow>
                      Some ((200, ChatJSON \<lparr>Reply = msg_order_failed @ msg_tool_call_failed @ err,
                                             resp_SessionID = SessionID req\<rparr>), Some c1)
                  | (Inr result, c1) \<Rightarrow>
                      Some ((200, ChatJSON \<lparr>Reply = buildFinalReply (Output_Text response) result,
                                             resp_SessionID = SessionID req\<rparr>), Some c1)))"
proof -
  let ?r = "pre @ ''<func_call>'' @ block @ ''</func_call>'' @ post"
  have tn: "leftmost (dot_block_at ''<tool_name>'' ''</tool_name>'') block = Some (b1, name, b2)"
    by (rule tool_name_found [OF assms(3,4,5,6)])
  have ar: "leftmost (any_block_at ''<arguments>'' ''</arguments>'') block = Some (a1, argsContent, a2)"
    by (rule arguments_found [OF assms(7,8,9)])
  have ca: "collect_args (tagRegex_FindAllStringSubmatch argsContent) [] = Some []"
    using assms(10) by (simp add: collect_args_no_match)
  have p: "parseToolCallFromXML ?r = Some (\<lparr>ToolName = TrimSpace name, Arguments = ''{}''\<rparr>, True)"
    by (subst parseToolCallFromXML_block [OF assms(1,2)]) (simp add: tn ar ca json_Marshal_empty)
  have h: "\<forall>e c body req response.
            ShouldBindJSON body = Inr req
            \<and> Chat e (assemble_messages req
                 (case SearchKnowledge e (req_Message req) 3 of Inl err \<Rightarrow> [] | Inr docs \<Rightarrow> docs)) []
               = Inr response
            \<and> Output_Text response = ?r
            \<and> json_Unmarshal_args e ''{}'' = Inr []
            \<longrightarrow> HandleChat e (Some c) body =
                 (case CallTool e c (TrimSpace name) [] of
                    (Inl err, c1) \<Rightarrow>
                      Some ((200, ChatJSON \<lparr>Reply = msg_order_failed @ msg_tool_call_failed @ err,
                                             resp_SessionID = SessionID req\<rparr>), Some c1)
                  | (Inr result, c1) \<Rightarrow>
                      Some ((200, ChatJSON \<lparr>Reply = buildFinalReply (Output_Text response) result,
                                             resp_SessionID = SessionID req\<rparr>), Some c1))"
  proof (intro allI impI)
    fix e :: env and c body req response
    assume a: "ShouldBindJSON body = Inr req
            \<and> Chat e (assemble_messages req
                 (case SearchKnowledge e (req_Message req) 3 of Inl err \<Rightarrow> [] | Inr docs \<Rightarrow> docs)) []
               = Inr response
            \<and> Output_Text response = ?r
            \<and> json_Unmarshal_args e ''{}'' = Inr []"
    then have pr: "parseToolCallFromXML (Output_Text response)
                    = Some (\<lparr>ToolName = TrimSpace name, Arguments = ''{}''\<rparr>, True)"
      using p by simp
    have "HandleChat e (Some c) body =
           (case Execute e (Some c) (TrimSpace name) ''{}'' of
              (Inl err, g1) \<Rightarrow>
                Some ((200, ChatJSON \<lparr>Reply = msg_order_failed @ err,
                                       resp_SessionID = SessionID req\<rparr>), g1)
            | (Inr result, g1) \<Rightarrow>
                Some ((200, ChatJSON \<lparr>Reply = buildFinalReply (Output_Text response) result,
                                       resp_SessionID = SessionID req\<rparr>), g1))"
      using HandleChat_found [OF _ _ pr, of body req e "Some c"] a by simp
    then show "HandleChat e (Some c) body =
                 (case CallTool e c (TrimSpace name) [] of
                    (Inl err, c1) \<Rightarrow>
                      Some ((200, ChatJSON \<lparr>Reply = msg_order_failed @ msg_tool_call_failed @ err,
                                             resp_SessionID = SessionID req\<rparr>), Some c1)
                  | (Inr result, c1) \<Rightarrow>
                      Some ((200, ChatJSON \<lparr>Reply = buildFinalReply (Output_Text response) result,
                                             resp_SessionID = SessionID req\<rparr>), Some c1))"
      using a by (simp add: Execute_def split: prod.split sum.split)
  qed
  from p h json_Marshal_empty show ?thesis by blast
qed

theorem C10_directive_without_arguments_witness:
  "parseToolCallFromXML bare_reply = Some (\<lparr>ToolName = ''list_orders'', Arguments = ''{}''\<rparr>, True)
   \<and> HandleChat (fixed_env [] (text_response bare_reply) ok_response (one_block ''No orders''))
        (Some fresh_client) (Some (plain_request ''my orders'' []))
      = Some ((200, ChatJSON \<lparr>Reply = ''No orders'', resp_SessionID = ''s1''\<rparr>),
              Some \<lparr>msgID = 3, mu = False, written = [''request 3'' @ [CHR 0x0A]]\<rparr>)"
proof -
  let ?e = "fixed_env [] (text_response bare_reply) ok_response (one_block ''No orders'')"
  let ?req = "plain_request ''my orders'' []"
  let ?block = "''<tool_name> list_orders </tool_name><arguments> <a>1</b> </arguments>''"
  have 1: "\<not> Contains [] ''<func_call>''" by simp
  have 2: "\<not> Contains ?block ''</func_call>''" by simp
  have 3: "?block = [] @ ''<tool_name>'' @ '' list_orders '' @ ''</tool_name>''
             @ ''<arguments> <a>1</b> </arguments>''" by simp
  have 4: "\<not> Contains [] ''<tool_name>''" by simp
  have 5: "\<not> Contains '' list_orders '' ''</tool_name>''" by simp
  have 6: "CHR 0x0A \<notin> set '' list_orders ''" by simp
  have 7: "?block = ''<tool_name> list_orders </tool_name>'' @ ''<arguments>'' @ '' <a>1</b> ''
             @ ''</arguments>'' @ []" by simp
  have 8: "\<not> Contains ''<tool_name> list_orders </tool_name>'' ''<arguments>''" by simp
  have 9: "\<not> Contains '' <a>1</b> '' ''</arguments>''" by simp
  have f: "tagRegex_FindAllStringSubmatch '' <a>1</b> '' = [[''<a>1</b>'', ''a'', ''1'', ''b'']]"
    by code_simp
  have 10: "\<forall>m \<in> set (tagRegex_FindAllStringSubmatch '' <a>1</b> ''). m ! 1 \<noteq> m ! 3"
    by (simp add: f)
  note t = C10_directive_without_arguments [OF 1 2 3 4 5 6 7 8 9 10, of "[]"]
  have tr: "TrimSpace '' list_orders '' = ''list_orders''"
    by code_simp
  have br: "bare_reply = [] @ ''<func_call>'' @ ?block @ ''</func_call>'' @ []"
    by (simp add: bare_reply_def)
  have p: "parseToolCallFromXML bare_reply = Some (\<lparr>ToolName = ''list_orders'', Arguments = ''{}''\<rparr>, True)"
    using t tr br by simp
  have b: "ShouldBindJSON (Some ?req) = Inr ?req
           \<and> Chat ?e (assemble_messages ?req
                (case SearchKnowledge ?e (req_Message ?req) 3 of Inl err \<Rightarrow> [] | Inr docs \<Rightarrow> docs)) []
              = Inr (text_response bare_reply)
           \<and> Output_Text (text_response bare_reply) = [] @ ''<func_call>'' @ ?block @ ''</func_call>'' @ []
           \<and> json_Unmarshal_args ?e ''{}'' = Inr []"
    by (simp add: ShouldBindJSON_def plain_request_def fixed_env_def text_response_def bare_reply_def)
  have ct: "CallTool ?e fresh_client ''list_orders'' []
              = (Inr ''No orders'', \<lparr>msgID = 3, mu = False, written = [''request 3'' @ [CHR 0x0A]]\<rparr>)"
    by code_simp
  have bf: "buildFinalReply (Output_Text (text_response bare_reply)) ''No orders'' = ''No orders''"
    by code_simp
  have "HandleChat ?e (Some fresh_client) (Some ?req) =
          (case CallTool ?e fresh_client (TrimSpace '' list_orders '') [] of
             (Inl err, c1) \<Rightarrow>
               Some ((200, ChatJSON \<lparr>Reply = msg_order_failed @ msg_tool_call_failed @ err,
                                      resp_SessionID = SessionID ?req\<rparr>), Some c1)
           | (Inr result, c1) \<Rightarrow>
               Some ((200, ChatJSON \<lparr>Reply = buildFinalReply (Output_Text (text_response bare_reply)) result,
                                      resp_SessionID = SessionID ?req\<rparr>), Some c1))"
    using t b by blast
  then have h: "HandleChat ?e (Some fresh_client) (Some ?req)
      = Some ((200, ChatJSON \<lparr>Reply = ''No orders'', resp_SessionID = ''s1''\<rparr>),
              Some \<lparr>msgID = 3, mu = False, written = [''request 3'' @ [CHR 0x0A]]\<rparr>)"
    by (simp add: tr ct bf plain_request_def)
  from p h show ?thesis by simp
qed

section \<open>Well-formed directives\<close>
























lemma word_no_newline: "word k \<Longrightarrow> CHR 0x0A \<notin> set k"
proof -
  have "\<not> is_word (CHR 0x0A)" by (simp add: is_word_def byte_def)
  then show "word k \<Longrightarrow> CHR 0x0A \<notin> set k"
    by (auto simp: word_def list_all_iff)
qed






section \<open>The rounds of the iterative loop\<close>

lemma executed_results_length:
  "length (fst (executed_results e g toolCalls)) = length toolCalls"
proof (induction toolCalls arbitrary: g)
  case Nil
  then show ?case by simp
next
  case (Cons tc rest)
  obtain r g1 where ex: "Execute e g (fn_Name tc) (fn_Arguments tc) = (r, g1)"
    by (cases "Execute e g (fn_Name tc) (fn_Arguments tc)")
  obtain rs g2 where er: "executed_results e g1 rest = (rs, g2)"
    by (cases "executed_results e g1 rest")
  from Cons.IH [of g1] er have "length rs = length rest" by simp
  with ex er show ?case by simp
qed

lemma tool_result_message_eq:
  "tool_result_message e g toolCall =
     (result_message e (fst (Execute e g (fn_Name toolCall) (fn_Arguments toolCall))),
      snd (Execute e g (fn_Name toolCall) (fn_Arguments toolCall)))"
  by (cases "Execute e g (fn_Name toolCall) (fn_Arguments toolCall)")
     (simp add: tool_result_message_def result_message_def result_text_def Let_def
           split: option.splits sum.splits)

lemma run_tool_calls_eq:
  "run_tool_calls e toolCalls msgs g
     = (msgs @ tool_messages e g toolCalls, client_after e g toolCalls)"
proof (induction toolCalls arbitrary: msgs g)
  case Nil
  then show ?case by (simp add: tool_messages_def client_after_def)
next
  case (Cons tc rest)
  obtain r g1 where ex: "Execute e g (fn_Name tc) (fn_Arguments tc) = (r, g1)"
    by (cases "Execute e g (fn_Name tc) (fn_Arguments tc)")
  obtain rs g2 where er: "executed_results e g1 rest = (rs, g2)"
    by (cases "executed_results e g1 rest")
  have "run_tool_calls e (tc # rest) msgs g
          = run_tool_calls e rest (msgs @ [result_message e r]) g1"
    using ex by (simp add: tool_result_message_eq)
  also have "\<dots> = ((msgs @ [result_message e r]) @ tool_messages e g1 rest, client_after e g1 rest)"
    by (rule Cons.IH)
  also have "\<dots> = (msgs @ tool_messages e g (tc # rest), client_after e g (tc # rest))"
    using ex er by (simp add: tool_messages_def client_after_def)
  finally show ?case .
qed


lemma tool_messages_roles:
  "\<forall>m \<in> set (tool_messages e g toolCalls). Role m = ''tool''"
  by (simp add: tool_messages_def result_message_def)

lemma tool_loop_rounds_le:
  "i \<le> maxIterations \<Longrightarrow> fst (snd (tool_loop e tools i msgs g)) \<le> maxIterations"
proof (induction e tools i msgs g rule: tool_loop.induct)
  case (1 e tools i msgs g)
  show ?case
  proof (cases "i < maxIterations")
    case False
    with "1.prems" show ?thesis by (subst tool_loop.simps) simp
  next
    case True
    show ?thesis
    proof (cases "Chat e msgs tools")
      case (Inl err)
      with True show ?thesis by (subst tool_loop.simps) simp
    next
      case (Inr response)
      show ?thesis
      proof (cases "ShouldCallTool response")
        case False
        with True Inr show ?thesis by (subst tool_loop.simps) simp
      next
        case sc: True
        obtain msgs1 g1 where rt: "run_tool_calls e (GetToolCalls response)
                       (msgs @ [\<lparr>Role = ''assistant'', Content = []\<rparr>]) g = (msgs1, g1)"
          by (cases "run_tool_calls e (GetToolCalls response)
                       (msgs @ [\<lparr>Role = ''assistant'', Content = []\<rparr>]) g")
        have "i + 1 \<le> maxIterations" using True by simp
        then have "fst (snd (tool_loop e tools (i + 1) msgs1 g1)) \<le> maxIterations"
          by (rule "1.IH" [OF True Inr sc rt [symmetric]])
        then show ?thesis
          using True Inr sc rt by (subst tool_loop.simps) simp
      qed
    qed
  qed
qed

lemma tool_loop_exhausted:
  "i + n = maxIterations \<Longrightarrow> rounds_request_tools e tools n msgs g \<Longrightarrow>
     \<exists>msgs1 g1. tool_loop e tools i msgs g = (Inr msg_fallback, maxIterations, msgs1, g1)"
proof (induction n arbitrary: i msgs g)
  case 0
  then show ?case by (subst tool_loop.simps) simp
next
  case (Suc n)
  from Suc.prems(1) have lt: "i < maxIterations" by simp
  from Suc.prems(2) obtain response where ch: "Chat e msgs tools = Inr response"
    by (auto split: sum.splits)
  with Suc.prems(2) have sc: "ShouldCallTool response" by simp
  obtain msgs1 g1 where rt: "run_tool_calls e (GetToolCalls response)
                       (msgs @ [\<lparr>Role = ''assistant'', Content = []\<rparr>]) g = (msgs1, g1)"
    by (cases "run_tool_calls e (GetToolCalls response)
                       (msgs @ [\<lparr>Role = ''assistant'', Content = []\<rparr>]) g")
  with Suc.prems(2) ch have nx: "rounds_request_tools e tools n msgs1 g1" by simp
  have "Suc i + n = maxIterations" using Suc.prems(1) by simp
  from Suc.IH [OF this nx] obtain msgs2 g2 where
    "tool_loop e tools (Suc i) msgs1 g1 = (Inr msg_fallback, maxIterations, msgs2, g2)" by blast
  then have "tool_loop e tools i msgs g = (Inr msg_fallback, maxIterations, msgs2, g2)"
    using lt ch sc rt by (subst tool_loop.simps) simp
  then show ?case by blast
qed

text \<open>
  C9. A run of the loop calls the model at most 5 times. A round (one of the first five)
  whose response requests no tool call ends the run with that response's text. A round
  whose response requests tool calls appends the empty assistant message and then, for
  each tool call in order, one message with the role \<open>tool\<close>: the tool is executed on the
  client as the call before left it, and the content of the message is the result of the
  execution, or the failure text followed by the error when the execution fails, indented
  when it is a JSON object. The run goes on with the next round on that conversation and
  the client after the last call. When each of the five rounds requests tool calls, the run
  ends after the fifth with the fixed apology and makes no further call.
\<close>

theorem C9_loop_at_most_five_rounds:
  "model_rounds e g messages tools \<le> 5
   \<and> (\<forall>i msgs g0 r.
        i < 5 \<and> Chat e msgs tools = Inr r \<and> \<not> ShouldCallTool r \<longrightarrow>
        tool_loop e tools i msgs g0 = (Inr (GetTextResponse r), i + 1, msgs, g0))
   \<and> (\<forall>i msgs g0 r.
        i < 5 \<and> Chat e msgs tools = Inr r \<and> ShouldCallTool r \<longrightarrow>
        run_tool_calls e (GetToolCalls r) (msgs @ [\<lparr>Role = ''assistant'', Content = []\<rparr>]) g0
          = (msgs @ [\<lparr>Role = ''assistant'', Content = []\<rparr>] @ tool_messages e g0 (GetToolCalls r),
             client_after e g0 (GetToolCalls r))
        \<and> length (tool_messages e g0 (GetToolCalls r)) = length (GetToolCalls r)
        \<and> (\<forall>m \<in> set (tool_messages e g0 (GetToolCalls r)). Role m = ''tool'')
        \<and> tool_loop e tools i msgs g0
            = tool_loop e tools (i + 1)
                (msgs @ [\<lparr>Role = ''assistant'', Content = []\<rparr>] @ tool_messages e g0 (GetToolCalls r))
                (client_after e g0 (GetToolCalls r)))
   \<and> (\<forall>g0 toolCall rest.
        tool_messages e g0 (toolCall # rest)
          = result_message e (fst (Execute e g0 (fn_Name toolCall) (fn_Arguments toolCall)))
            # tool_messages e (snd (Execute e g0 (fn_Name toolCall) (fn_Arguments toolCall))) rest)
   \<and> (rounds_request_tools e tools 5 messages g \<longrightarrow>
        fst (chatWithToolCalling e g messages tools) = Inr msg_fallback
        \<and> model_rounds e g messages tools = 5)"
proof -
  have 1: "model_rounds e g messages tools \<le> 5"
    using tool_loop_rounds_le [of 0 e tools messages g]
    by (simp add: model_rounds_def maxIterations_def)
  have 2: "\<forall>i msgs g0 r.
        i < 5 \<and> Chat e msgs tools = Inr r \<and> \<not> ShouldCallTool r \<longrightarrow>
        tool_loop e tools i msgs g0 = (Inr (GetTextResponse r), i + 1, msgs, g0)"
    by (intro allI impI, subst tool_loop.simps) (simp add: maxIterations_def)
  have 3: "\<forall>i msgs g0 r.
        i < 5 \<and> Chat e msgs tools = Inr r \<and> ShouldCallTool r \<longrightarrow>
        run_tool_calls e (GetToolCalls r) (msgs @ [\<lparr>Role = ''assistant'', Content = []\<rparr>]) g0
          = (msgs @ [\<lparr>Role = ''assistant'', Content = []\<rparr>] @ tool_messages e g0 (GetToolCalls r),
             client_after e g0 (GetToolCalls r))
        \<and> length (tool_messages e g0 (GetToolCalls r)) = length (GetToolCalls r)
        \<and> (\<forall>m \<in> set (tool_messages e g0 (GetToolCalls r)). Role m = ''tool'')
        \<and> tool_loop e tools i msgs g0
            = tool_loop e tools (i + 1)
                (msgs @ [\<lparr>Role = ''assistant'', Content = []\<rparr>] @ tool_messages e g0 (GetToolCalls r))
                (client_after e g0 (GetToolCalls r))"
  proof (intro allI impI)
    fix i :: nat and msgs g0 r
    assume h: "i < 5 \<and> Chat e msgs tools = Inr r \<and> ShouldCallTool r"
    let ?a = "\<lparr>Role = ''assistant'', Content = []\<rparr>"
    let ?T = "tool_messages e g0 (GetToolCalls r)"
    let ?g1 = "client_after e g0 (GetToolCalls r)"
    have a: "run_tool_calls e (GetToolCalls r) (msgs @ [?a]) g0 = (msgs @ [?a] @ ?T, ?g1)"
      by (simp add: run_tool_calls_eq)
    have b: "length ?T = length (GetToolCalls r)"
      by (simp add: tool_messages_def executed_results_length)
    have c: "\<forall>m \<in> set ?T. Role m = ''tool''"
      by (rule tool_messages_roles)
    have d: "tool_loop e tools i msgs g0 = tool_loop e tools (i + 1) (msgs @ [?a] @ ?T) ?g1"
      using h a by (subst tool_loop.simps) (simp add: maxIterations_def)
    from a b c d show "run_tool_calls e (GetToolCalls r) (msgs @ [?a]) g0 = (msgs @ [?a] @ ?T, ?g1)
        \<and> length ?T = length (GetToolCalls r)
        \<and> (\<forall>m \<in> set ?T. Role m = ''tool'')
        \<and> tool_loop e tools i msgs g0 = tool_loop e tools (i + 1) (msgs @ [?a] @ ?T) ?g1"
      by blast
  qed
  have 4: "\<forall>g0 toolCall rest.
        tool_messages e g0 (toolCall # rest)
          = result_message e (fst (Execute e g0 (fn_Name toolCall) (fn_Arguments toolCall)))
            # tool_messages e (snd (Execute e g0 (fn_Name toolCall) (fn_Arguments toolCall))) rest"
    by (simp add: tool_messages_def split: prod.splits)
  have 5: "rounds_request_tools e tools 5 messages g \<longrightarrow>
        fst (chatWithToolCalling e g messages tools) = Inr msg_fallback
        \<and> model_rounds e g messages tools = 5"
  proof
    assume "rounds_request_tools e tools 5 messages g"
    then obtain msgs1 g1 where
      "tool_loop e tools 0 messages g = (Inr msg_fallback, maxIterations, msgs1, g1)"
      using tool_loop_exhausted [of 0 5 e tools messages g] by (auto simp: maxIterations_def)
    then show "fst (chatWithToolCalling e g messages tools) = Inr msg_fallback
        \<and> model_rounds e g messages tools = 5"
      by (simp add: chatWithToolCalling_def model_rounds_def maxIterations_def)
  qed
  from 1 2 3 4 5 show ?thesis by blast
qed

theorem C9_loop_at_most_five_rounds_witness:
  "fst (chatWithToolCalling (fixed_env [] tool_calls_response ok_response (one_block ''shipped''))
          (Some fresh_client) [\<lparr>Role = ''user'', Content = ''where is my order''\<rparr>] [])
     = Inr msg_fallback
   \<and> model_rounds (fixed_env [] tool_calls_response ok_response (one_block ''shipped''))
          (Some fresh_client) [\<lparr>Role = ''user'', Content = ''where is my order''\<rparr>] [] = 5
   \<and> chatWithToolCalling (fixed_env [] (text_response ''hello'') ok_response (one_block ''shipped''))
          (Some fresh_client) [\<lparr>Role = ''user'', Content = ''hi''\<rparr>] []
     = (Inr ''hello'', Some fresh_client)
   \<and> tool_loop two_round_env [] 0 [\<lparr>Role = ''user'', Content = ''where is my order''\<rparr>]
          (Some fresh_client)
     = (Inr ''Your order has shipped'', 2,
        [\<lparr>Role = ''user'', Content = ''where is my order''\<rparr>,
         \<lparr>Role = ''assistant'', Content = []\<rparr>,
         \<lparr>Role = ''tool'', Content = json_a1_indented\<rparr>,
         \<lparr>Role = ''tool'',
          Content = msg_tool_exec_failed @ msg_bad_arguments @ ''unexpected input''\<rparr>],
        Some \<lparr>msgID = 3, mu = False, written = [''request 3'' @ [CHR 0x0A]]\<rparr>)"
proof -
  let ?e = "fixed_env [] tool_calls_response ok_response (one_block ''shipped'')"
  let ?m = "[\<lparr>Role = ''user'', Content = ''where is my order''\<rparr>]"
  let ?e2 = "fixed_env [] (text_response ''hello'') ok_response (one_block ''shipped'')"
  let ?m2 = "[\<lparr>Role = ''user'', Content = ''hi''\<rparr>]"
  let ?g = "Some fresh_client"
  let ?g1 = "Some \<lparr>msgID = 3, mu = False, written = [''request 3'' @ [CHR 0x0A]]\<rparr>"
  let ?T = "[\<lparr>Role = ''tool'', Content = json_a1_indented\<rparr>,
             \<lparr>Role = ''tool'',
              Content = msg_tool_exec_failed @ msg_bad_arguments @ ''unexpected input''\<rparr>]"
  let ?a = "\<lparr>Role = ''assistant'', Content = []\<rparr>"
  note thm2 = C9_loop_at_most_five_rounds [of two_round_env ?g ?m "[]"]
  have r: "rounds_request_tools ?e [] 5 ?m ?g"
    by code_simp
  have a: "fst (chatWithToolCalling ?e ?g ?m []) = Inr msg_fallback
           \<and> model_rounds ?e ?g ?m [] = 5"
    using C9_loop_at_most_five_rounds [of ?e ?g ?m "[]"] r by blast
  have c: "(0::nat) < 5 \<and> Chat ?e2 ?m2 [] = Inr (text_response ''hello'')
           \<and> \<not> ShouldCallTool (text_response ''hello'')"
    by (simp add: fixed_env_def ShouldCallTool_def text_response_def)
  have "tool_loop ?e2 [] 0 ?m2 ?g
          = (Inr (GetTextResponse (text_response ''hello'')), 0 + 1, ?m2, ?g)"
    using C9_loop_at_most_five_rounds [of ?e2 ?g ?m2 "[]"] c by blast
  then have b: "chatWithToolCalling ?e2 ?g ?m2 [] = (Inr ''hello'', ?g)"
    by (simp add: chatWithToolCalling_def GetTextResponse_def text_response_def)
  have tc: "GetToolCalls two_calls_response
              = [\<lparr>call_ID = ''call_1'', call_Type = ''function'',
                  fn_Name = ''query_order'', fn_Arguments = ''{}''\<rparr>,
                 \<lparr>call_ID = ''call_2'', call_Type = ''function'',
                  fn_Name = ''query_order'', fn_Arguments = ''oops''\<rparr>]"
    by (simp add: GetToolCalls_def two_calls_response_def)
  have sc: "ShouldCallTool two_calls_response"
    by code_simp
  have er: "executed_results two_round_env ?g (GetToolCalls two_calls_response)
              = ([Inr json_a1, Inl (msg_bad_arguments @ ''unexpected input'')], ?g1)"
    unfolding tc by code_simp
  have T: "tool_messages two_round_env ?g (GetToolCalls two_calls_response) = ?T"
    unfolding tool_messages_def er
    by (simp add: result_message_def result_text_def two_round_env_def fixed_env_def
                  json_a1_def)
  have G: "client_after two_round_env ?g (GetToolCalls two_calls_response) = ?g1"
    unfolding client_after_def er by simp
  have h0: "(0::nat) < 5 \<and> Chat two_round_env ?m [] = Inr two_calls_response
            \<and> ShouldCallTool two_calls_response"
    using sc by (simp add: two_round_env_def fixed_env_def)
  have "tool_loop two_round_env [] 0 ?m ?g
          = tool_loop two_round_env [] (0 + 1)
              (?m @ [?a] @ tool_messages two_round_env ?g (GetToolCalls two_calls_response))
              (client_after two_round_env ?g (GetToolCalls two_calls_response))"
    using thm2 h0 by blast
  then have s0: "tool_loop two_round_env [] 0 ?m ?g
                   = tool_loop two_round_env [] (0 + 1) (?m @ [?a] @ ?T) ?g1"
    unfolding T G .
  have h1: "(0 + 1::nat) < 5
            \<and> Chat two_round_env (?m @ [?a] @ ?T) [] = Inr (text_response ''Your order has shipped'')
            \<and> \<not> ShouldCallTool (text_response ''Your order has shipped'')"
    by (simp add: two_round_env_def fixed_env_def ShouldCallTool_def text_response_def)
  have s1: "tool_loop two_round_env [] (0 + 1) (?m @ [?a] @ ?T) ?g1
              = (Inr (GetTextResponse (text_response ''Your order has shipped'')), 0 + 1 + 1,
                 ?m @ [?a] @ ?T, ?g1)"
    using thm2 h1 by blast
  have d: "tool_loop two_round_env [] 0 ?m ?g
             = (Inr ''Your order has shipped'', 2, ?m @ [?a] @ ?T, ?g1)"
    unfolding s0 s1 by (simp add: GetTextResponse_def text_response_def)
  from a b d show ?thesis by simp
qed

section \<open>Sequence ids and exchanges under concurrency\<close>

text \<open>The ids that are strictly increasing when calls do not overlap.\<close>

lemma wrap_int64_id:
  assumes "- (2 ^ 63) \<le> x" "x < 2 ^ 63"
  shows "wrap_int64 x = x"
proof -
  have "0 \<le> x + 2 ^ 63" "x + 2 ^ 63 < 2 ^ 64" using assms by simp_all
  then have "(x + 2 ^ 63) mod 2 ^ 64 = x + 2 ^ 63" by (rule mod_pos_pos_trivial)
  then show ?thesis by (simp add: wrap_int64_def)
qed

lemma nextID_increases:
  assumes "- (2 ^ 63) \<le> msgID c" "msgID c < 2 ^ 63 - 1"
  shows "fst (nextID c) = msgID c + 1 \<and> msgID (snd (nextID c)) = msgID c + 1"
proof -
  have "wrap_int64 (msgID c + 1) = msgID c + 1"
    by (rule wrap_int64_id) (use assms in simp_all)
  then show ?thesis by (simp add: nextID_def Let_def)
qed

lemma complete_Nil: "complete []"
  unfolding complete_def by (rule exI [of _ "[]"]) simp

lemma complete_snoc: "complete es \<Longrightarrow> complete (es @ [Sent t i, Received t])"
proof -
  assume "complete es"
  then obtain ps where "es = concat (map exchange ps)" by (auto simp: complete_def)
  then have "es @ [Sent t i, Received t] = concat (map exchange (ps @ [(t, i)]))"
    by (simp add: exchange_def)
  then show ?thesis unfolding complete_def by blast
qed

lemma lock_invariant_start:
  "\<not> mu c \<Longrightarrow> lock_invariant (concurrent_calls n c)"
  by (auto simp: lock_invariant_def concurrent_calls_def in_cs_def is_reading_def complete_Nil)

lemma in_cs_simps:
  "\<not> in_cs AtInc" "\<not> in_cs AtReturn" "\<not> in_cs (AtLock i)" "in_cs (AtWrite i)" "in_cs (AtRead i)"
  "in_cs (AtUnlock i)" "\<not> in_cs (Finished i)"
  by (simp_all add: in_cs_def)

lemma is_reading_iff: "is_reading p \<longleftrightarrow> (\<exists>i. p = AtRead i)"
  by (cases p) (simp_all add: is_reading_def)

lemma lock_invariantI:
  assumes "\<And>a b. a < length (pcs st) \<Longrightarrow> b < length (pcs st) \<Longrightarrow> in_cs (pcs st ! a)
             \<Longrightarrow> in_cs (pcs st ! b) \<Longrightarrow> a = b"
    and "mu (client st) \<longleftrightarrow> (\<exists>a < length (pcs st). in_cs (pcs st ! a))"
    and "\<And>a i. a < length (pcs st) \<Longrightarrow> pcs st ! a = AtRead i
             \<Longrightarrow> \<exists>es. events st = es @ [Sent a i] \<and> complete es"
    and "(\<forall>a < length (pcs st). \<not> is_reading (pcs st ! a)) \<Longrightarrow> complete (events st)"
  shows "lock_invariant st"
  unfolding lock_invariant_def using assms by blast

text \<open>A step that changes neither the lock, nor the log, nor who is between lock and unlock.\<close>

lemma lock_invariant_outside:
  assumes inv: "lock_invariant st"
    and len: "length (pcs st1) = length (pcs st)"
    and mu: "mu (client st1) = mu (client st)" and ev: "events st1 = events st"
    and cs: "\<And>a. a < length (pcs st) \<Longrightarrow> in_cs (pcs st1 ! a) = in_cs (pcs st ! a)"
    and rd: "\<And>a i. a < length (pcs st) \<Longrightarrow> (pcs st1 ! a = AtRead i) = (pcs st ! a = AtRead i)"
  shows "lock_invariant st1"
proof (rule lock_invariantI)
  fix a b
  assume "a < length (pcs st1)" "b < length (pcs st1)" "in_cs (pcs st1 ! a)" "in_cs (pcs st1 ! b)"
  then have "a < length (pcs st)" "b < length (pcs st)" "in_cs (pcs st ! a)" "in_cs (pcs st ! b)"
    using len cs by simp_all
  then show "a = b" using inv unfolding lock_invariant_def by blast
next
  have "mu (client st) \<longleftrightarrow> (\<exists>a < length (pcs st). in_cs (pcs st ! a))"
    using inv unfolding lock_invariant_def by blast
  then show "mu (client st1) \<longleftrightarrow> (\<exists>a < length (pcs st1). in_cs (pcs st1 ! a))"
    using len cs mu by auto
next
  fix a i
  assume "a < length (pcs st1)" "pcs st1 ! a = AtRead i"
  then have "a < length (pcs st)" "pcs st ! a = AtRead i" using len rd by simp_all
  then have "\<exists>es. events st = es @ [Sent a i] \<and> complete es"
    using inv unfolding lock_invariant_def by blast
  then show "\<exists>es. events st1 = es @ [Sent a i] \<and> complete es" using ev by simp
next
  assume "\<forall>a < length (pcs st1). \<not> is_reading (pcs st1 ! a)"
  then have "\<forall>a < length (pcs st). \<not> is_reading (pcs st ! a)"
    using len rd by (simp add: is_reading_iff)
  then have "complete (events st)"
    using inv unfolding lock_invariant_def by blast
  then show "complete (events st1)" using ev by simp
qed

lemma lock_invariant_step:
  assumes "lock_invariant st" "step_thread line t st = Some st1"
  shows "lock_invariant st1"
proof -
  let ?n = "length (pcs st)"
  from assms(2) have t: "t < ?n"
    by (auto simp: step_thread_def split: if_splits)
  from assms(1) have M: "\<And>a b. a < ?n \<Longrightarrow> b < ?n \<Longrightarrow> in_cs (pcs st ! a) \<Longrightarrow> in_cs (pcs st ! b) \<Longrightarrow> a = b"
    and L: "mu (client st) \<longleftrightarrow> (\<exists>a < ?n. in_cs (pcs st ! a))"
    and E1: "\<And>a i. a < ?n \<Longrightarrow> pcs st ! a = AtRead i \<Longrightarrow> \<exists>es. events st = es @ [Sent a i] \<and> complete es"
    and E2: "(\<forall>a < ?n. \<not> is_reading (pcs st ! a)) \<Longrightarrow> complete (events st)"
    unfolding lock_invariant_def by blast+
  have upd: "\<And>p a. a < ?n \<Longrightarrow> (pcs st)[t := p] ! a = (if a = t then p else pcs st ! a)"
    using t by (simp add: nth_list_update)
  have alone: "a = t" if "in_cs (pcs st ! t)" "a < ?n" "in_cs (pcs st ! a)" for a
    using M [OF that(2) t that(3) that(1)] .
  show ?thesis
  proof (cases "pcs st ! t")
    case AtInc
    with assms(2) t have st1: "pcs st1 = (pcs st)[t := AtReturn]" "mu (client st1) = mu (client st)"
      "events st1 = events st"
      by (auto simp: step_thread_def)
    show ?thesis
    proof (rule lock_invariant_outside [OF assms(1) _ st1(2,3)])
      show "length (pcs st1) = ?n" by (simp add: st1)
      show "in_cs (pcs st1 ! a) = in_cs (pcs st ! a)" if "a < ?n" for a
        using that AtInc by (simp add: st1 upd in_cs_simps)
      show "(pcs st1 ! a = AtRead i) = (pcs st ! a = AtRead i)" if "a < ?n" for a i
        using that AtInc by (simp add: st1 upd)
    qed
  next
    case AtReturn
    with assms(2) t have st1: "pcs st1 = (pcs st)[t := AtLock (msgID (client st))]"
      "mu (client st1) = mu (client st)" "events st1 = events st"
      by (auto simp: step_thread_def)
    show ?thesis
    proof (rule lock_invariant_outside [OF assms(1) _ st1(2,3)])
      show "length (pcs st1) = ?n" by (simp add: st1)
      show "in_cs (pcs st1 ! a) = in_cs (pcs st ! a)" if "a < ?n" for a
        using that AtReturn by (simp add: st1 upd in_cs_simps)
      show "(pcs st1 ! a = AtRead i) = (pcs st ! a = AtRead i)" if "a < ?n" for a i
        using that AtReturn by (simp add: st1 upd)
    qed
  next
    case (AtLock i)
    with assms(2) t have free: "\<not> mu (client st)"
      and st1: "pcs st1 = (pcs st)[t := AtWrite i]" "mu (client st1)" "events st1 = events st"
      by (auto simp: step_thread_def split: if_splits)
    from free L have none: "\<not> in_cs (pcs st ! a)" if "a < ?n" for a
      using that by blast
    have nrd0: "pcs st ! a \<noteq> AtRead j" if "a < ?n" for a j
      using none [OF that] by (auto simp: in_cs_simps)
    have c: "complete (events st)"
      by (rule E2) (use nrd0 in \<open>simp add: is_reading_iff\<close>)
    show ?thesis
    proof (rule lock_invariantI)
      fix a b
      assume "a < length (pcs st1)" "b < length (pcs st1)" "in_cs (pcs st1 ! a)" "in_cs (pcs st1 ! b)"
      then have "a = t" "b = t"
        using none by (auto simp: st1 upd split: if_splits)
      then show "a = b" by simp
    next
      have "in_cs (pcs st1 ! t)" using t by (simp add: st1 in_cs_simps)
      then show "mu (client st1) \<longleftrightarrow> (\<exists>a < length (pcs st1). in_cs (pcs st1 ! a))"
        using t st1(2) by (auto simp: st1(1))
    next
      fix a j
      assume "a < length (pcs st1)" "pcs st1 ! a = AtRead j"
      then have False using nrd0 [of a j] by (auto simp: st1 upd split: if_splits)
      then show "\<exists>es. events st1 = es @ [Sent a j] \<and> complete es" ..
    next
      show "complete (events st1)" using c by (simp add: st1)
    qed
  next
    case (AtWrite i)
    with assms(2) t have st1: "pcs st1 = (pcs st)[t := AtRead i]" "mu (client st1) = mu (client st)"
      "events st1 = events st @ [Sent t i]"
      by (auto simp: step_thread_def)
    have tcs: "in_cs (pcs st ! t)" using AtWrite by (simp add: in_cs_simps)
    have nrd0: "pcs st ! a \<noteq> AtRead j" if "a < ?n" for a j
    proof
      assume r: "pcs st ! a = AtRead j"
      then have "in_cs (pcs st ! a)" by (simp add: in_cs_simps)
      then have "a = t" by (rule alone [OF tcs that])
      with r AtWrite show False by simp
    qed
    have c: "complete (events st)"
      by (rule E2) (use nrd0 in \<open>simp add: is_reading_iff\<close>)
    have cs: "in_cs (pcs st1 ! a) = in_cs (pcs st ! a)" if "a < ?n" for a
      using that AtWrite by (simp add: st1 upd in_cs_simps)
    show ?thesis
    proof (rule lock_invariantI)
      fix a b
      assume "a < length (pcs st1)" "b < length (pcs st1)" "in_cs (pcs st1 ! a)" "in_cs (pcs st1 ! b)"
      then have "a < ?n" "b < ?n" "in_cs (pcs st ! a)" "in_cs (pcs st ! b)"
        using cs by (simp_all add: st1)
      then show "a = b" by (rule M)
    next
      show "mu (client st1) \<longleftrightarrow> (\<exists>a < length (pcs st1). in_cs (pcs st1 ! a))"
        using L cs by (auto simp: st1)
    next
      fix a j
      assume a: "a < length (pcs st1)" "pcs st1 ! a = AtRead j"
      then have "a = t \<and> j = i"
        using nrd0 [of a j] by (auto simp: st1 upd split: if_splits)
      then show "\<exists>es. events st1 = es @ [Sent a j] \<and> complete es"
        using c by (simp add: st1)
    next
      assume "\<forall>a < length (pcs st1). \<not> is_reading (pcs st1 ! a)"
      moreover have "t < length (pcs st1)" using t by (simp add: st1(1))
      ultimately have "\<not> is_reading (pcs st1 ! t)" by blast
      moreover have "pcs st1 ! t = AtRead i" using t by (simp add: st1(1))
      ultimately have False by (simp add: is_reading_iff)
      then show "complete (events st1)" ..
    qed
  next
    case (AtRead i)
    with assms(2) t have st1: "pcs st1 = (pcs st)[t := AtUnlock i]" "mu (client st1) = mu (client st)"
      "events st1 = events st @ [Received t]"
      by (auto simp: step_thread_def)
    have tcs: "in_cs (pcs st ! t)" using AtRead by (simp add: in_cs_simps)
    from E1 [OF t AtRead] obtain es where es: "events st = es @ [Sent t i]" "complete es" by blast
    then have c: "complete (events st1)"
      using complete_snoc [of es t i] by (simp add: st1)
    have cs: "in_cs (pcs st1 ! a) = in_cs (pcs st ! a)" if "a < ?n" for a
      using that AtRead by (simp add: st1 upd in_cs_simps)
    have nrd: "pcs st1 ! a \<noteq> AtRead j" if "a < ?n" for a j
    proof
      assume r: "pcs st1 ! a = AtRead j"
      then have ne: "a \<noteq> t" using that by (auto simp: st1 upd)
      with r that have "pcs st ! a = AtRead j" by (simp add: st1 upd)
      then have "in_cs (pcs st ! a)" by (simp add: in_cs_simps)
      then have "a = t" by (rule alone [OF tcs that])
      with ne show False by simp
    qed
    show ?thesis
    proof (rule lock_invariantI)
      fix a b
      assume "a < length (pcs st1)" "b < length (pcs st1)" "in_cs (pcs st1 ! a)" "in_cs (pcs st1 ! b)"
      then have "a < ?n" "b < ?n" "in_cs (pcs st ! a)" "in_cs (pcs st ! b)"
        using cs by (simp_all add: st1)
      then show "a = b" by (rule M)
    next
      show "mu (client st1) \<longleftrightarrow> (\<exists>a < length (pcs st1). in_cs (pcs st1 ! a))"
        using L cs by (auto simp: st1)
    next
      fix a j
      assume "a < length (pcs st1)" "pcs st1 ! a = AtRead j"
      then have False using nrd [of a j] by (simp add: st1(1))
      then show "\<exists>es. events st1 = es @ [Sent a j] \<and> complete es" ..
    next
      show "complete (events st1)" by (rule c)
    qed
  next
    case (AtUnlock i)
    with assms(2) t have st1: "pcs st1 = (pcs st)[t := Finished i]" "\<not> mu (client st1)"
      "events st1 = events st"
      by (auto simp: step_thread_def)
    have tcs: "in_cs (pcs st ! t)" using AtUnlock by (simp add: in_cs_simps)
    have none: "\<not> in_cs (pcs st1 ! a)" if "a < ?n" for a
    proof
      assume r: "in_cs (pcs st1 ! a)"
      then have ne: "a \<noteq> t" using that by (auto simp: st1 upd in_cs_simps)
      with r that have "in_cs (pcs st ! a)" by (simp add: st1 upd)
      then have "a = t" by (rule alone [OF tcs that])
      with ne show False by simp
    qed
    have nrd0: "pcs st ! a \<noteq> AtRead j" if "a < ?n" for a j
    proof
      assume r: "pcs st ! a = AtRead j"
      then have "in_cs (pcs st ! a)" by (simp add: in_cs_simps)
      then have "a = t" by (rule alone [OF tcs that])
      with r AtUnlock show False by simp
    qed
    have c: "complete (events st)"
      by (rule E2) (use nrd0 in \<open>simp add: is_reading_iff\<close>)
    show ?thesis
    proof (rule lock_invariantI)
      fix a b
      assume "a < length (pcs st1)" "b < length (pcs st1)" "in_cs (pcs st1 ! a)" "in_cs (pcs st1 ! b)"
      then have False using none [of a] by (simp add: st1(1))
      then show "a = b" ..
    next
      show "mu (client st1) \<longleftrightarrow> (\<exists>a < length (pcs st1). in_cs (pcs st1 ! a))"
        using none st1(2) by (auto simp: st1(1))
    next
      fix a j
      assume a: "a < length (pcs st1)" "pcs st1 ! a = AtRead j"
      then have "in_cs (pcs st1 ! a)" by (simp add: in_cs_simps)
      then have False using none [of a] a(1) by (simp add: st1(1))
      then show "\<exists>es. events st1 = es @ [Sent a j] \<and> complete es" ..
    next
      show "complete (events st1)" using c by (simp add: st1)
    qed
  next
    case (Finished i)
    with assms(2) t show ?thesis by (simp add: step_thread_def)
  qed
qed

lemma lock_invariant_run:
  "lock_invariant st \<Longrightarrow> run line sched st = Some st1 \<Longrightarrow> lock_invariant st1"
proof (induction sched arbitrary: st)
  case Nil
  then show ?case by simp
next
  case (Cons t sched)
  from Cons.prems(2) obtain st2 where s: "step_thread line t st = Some st2" "run line sched st2 = Some st1"
    by (auto split: option.splits)
  from Cons.IH [OF lock_invariant_step [OF Cons.prems(1) s(1)] s(2)] show ?case .
qed

text \<open>
  What the lock does give: on every schedule of any number of concurrent calls, at most one
  goroutine is between lock and unlock, and the log is a sequence of complete exchanges,
  followed by at most one request whose response has not been read yet.
\<close>

lemma exchanges_never_interleave:
  assumes "\<not> mu c" "run line sched (concurrent_calls n c) = Some st"
  shows "(\<forall>a b. a < length (pcs st) \<and> b < length (pcs st)
             \<and> in_cs (pcs st ! a) \<and> in_cs (pcs st ! b) \<longrightarrow> a = b)
       \<and> (complete (events st) \<or> (\<exists>es t i. events st = es @ [Sent t i] \<and> complete es))"
proof -
  have inv: "lock_invariant st"
    by (rule lock_invariant_run [OF lock_invariant_start [OF assms(1)] assms(2)])
  then have 1: "\<forall>a b. a < length (pcs st) \<and> b < length (pcs st)
             \<and> in_cs (pcs st ! a) \<and> in_cs (pcs st ! b) \<longrightarrow> a = b"
    unfolding lock_invariant_def by blast
  have 2: "complete (events st) \<or> (\<exists>es t i. events st = es @ [Sent t i] \<and> complete es)"
  proof (cases "\<forall>a < length (pcs st). \<not> is_reading (pcs st ! a)")
    case True
    with inv show ?thesis unfolding lock_invariant_def by blast
  next
    case False
    then obtain a i where "a < length (pcs st)" "pcs st ! a = AtRead i"
      by (auto simp: is_reading_iff)
    with inv have "\<exists>es. events st = es @ [Sent a i] \<and> complete es"
      unfolding lock_invariant_def by blast
    then show ?thesis by blast
  qed
  from 1 2 show ?thesis by blast
qed

text \<open>Calls that do not overlap get increasing ids: the second call runs after the first.\<close>

lemma sequential_calls_increase:
  "run line [0, 0, 0, 0, 0, 0, 1, 1, 1, 1, 1, 1]
     (concurrent_calls 2 \<lparr>msgID = 2, mu = False, written = []\<rparr>)
   = Some \<lparr>client = \<lparr>msgID = 4, mu = False, written = [line 3 @ [CHR 0x0A], line 4 @ [CHR 0x0A]]\<rparr>,
           pcs = [Finished 3, Finished 4],
           events = [Sent 0 3, Received 0, Sent 1 4, Received 1]\<rparr>"
  by (simp add: step_thread_def concurrent_calls_def wrap_int64_def numeral_2_eq_2)

text \<open>
  C3, where the code departs from it. \<open>CallTool\<close> takes its id with \<open>nextID\<close> before
  \<open>sendRequest\<close> locks the mutex, and \<open>nextID\<close> increments the counter in one statement and
  reads it back in the next. Two calls that start together on a client whose counter is 2
  (after \<open>initialize\<close> and \<open>tools/list\<close>) can both increment before either reads: both
  requests then carry the id 4, and neither id is greater than the other. The exchanges
  themselves stay whole, as the lock guarantees.
\<close>

theorem C3_concurrent_calls_share_an_id:
  "run line [0, 1, 0, 1, 0, 0, 0, 0, 1, 1, 1, 1]
     (concurrent_calls 2 \<lparr>msgID = 2, mu = False, written = []\<rparr>)
   = Some \<lparr>client = \<lparr>msgID = 4, mu = False, written = [line 4 @ [CHR 0x0A], line 4 @ [CHR 0x0A]]\<rparr>,
           pcs = [Finished 4, Finished 4],
           events = [Sent 0 4, Received 0, Sent 1 4, Received 1]\<rparr>"
  by (simp add: step_thread_def concurrent_calls_def wrap_int64_def numeral_2_eq_2)

text \<open>
  Even when each call takes its id without interference, the call that took the later id
  can reach the lock first, so the ids on the wire are not increasing.
\<close>

lemma later_id_can_be_sent_first:
  "run line [0, 0, 1, 1, 1, 1, 1, 1, 0, 0, 0, 0]
     (concurrent_calls 2 \<lparr>msgID = 2, mu = False, written = []\<rparr>)
   = Some \<lparr>client = \<lparr>msgID = 4, mu = False, written = [line 4 @ [CHR 0x0A], line 3 @ [CHR 0x0A]]\<rparr>,
           pcs = [Finished 3, Finished 4],
           events = [Sent 1 4, Received 1, Sent 0 3, Received 0]\<rparr>"
  by (simp add: step_thread_def concurrent_calls_def wrap_int64_def numeral_2_eq_2)

end
